theory Spec2Isabelle
  imports Complex_Main
begin

section \<open>The JavaScript platform: time values and date strings\<close>

text \<open>
  The application never computes with calendar dates itself: it hands strings to the
  built-in \<^verbatim>\<open>Date\<close> object and compares the results. This section models the part of
  \<^verbatim>\<open>Date\<close> the sources rely on, following the ECMAScript language specification.

  \<^item> A time value is an integer number of milliseconds since 1970-01-01T00:00:00Z.
    A \<^verbatim>\<open>Date\<close> object holds a time value or \<^verbatim>\<open>NaN\<close> (an Invalid Date); the latter
    is \<open>None\<close> here.
  \<^item> Relational operators on dates compare the time values, and every comparison with
    \<^verbatim>\<open>NaN\<close> is false.
  \<^item> The local time zone is a parameter \<open>tza\<close>: local time minus UTC, in milliseconds
    (\<open>LocalTZA\<close> in ECMAScript). It is one constant offset: daylight-saving changes are
    not modelled.
  \<^item> Strings are parsed by the ECMAScript date-time string format, restricted to the
    shapes the application produces: \<^verbatim>\<open>YYYY-MM-DD\<close> (read as UTC),
    \<^verbatim>\<open>YYYY-MM-DDTHH:mm\<close>, \<^verbatim>\<open>YYYY-MM-DDTHH:mm:ss\<close> and
    \<^verbatim>\<open>YYYY-MM-DDTHH:mm:ss.sss\<close> (read as local time), and the last three followed by
    \<^verbatim>\<open>Z\<close> (read as UTC). Every other string is an Invalid Date in the model; engines
    may accept more through their own fallback parsers.
\<close>

type_synonym Date = "int option"

definition date_le :: "Date \<Rightarrow> Date \<Rightarrow> bool" where
  "date_le a b = (case a of None \<Rightarrow> False
                  | Some x \<Rightarrow> (case b of None \<Rightarrow> False | Some y \<Rightarrow> x \<le> y))"

definition date_lt :: "Date \<Rightarrow> Date \<Rightarrow> bool" where
  "date_lt a b = (case a of None \<Rightarrow> False
                  | Some x \<Rightarrow> (case b of None \<Rightarrow> False | Some y \<Rightarrow> x < y))"

definition date_gt :: "Date \<Rightarrow> Date \<Rightarrow> bool" where
  "date_gt a b = date_lt b a"

text \<open>Strict equality \<^verbatim>\<open>===\<close> of two numbers, where \<^verbatim>\<open>NaN\<close> equals nothing.\<close>

definition strict_eq :: "int option \<Rightarrow> int option \<Rightarrow> bool" where
  "strict_eq a b = (case a of None \<Rightarrow> False
                    | Some x \<Rightarrow> (case b of None \<Rightarrow> False | Some y \<Rightarrow> x = y))"

subsection \<open>Days, months and years\<close>

definition msPerDay :: int where
  "msPerDay = 86400000"

definition Day :: "int \<Rightarrow> int" where
  "Day t = t div msPerDay"

definition TimeWithinDay :: "int \<Rightarrow> int" where
  "TimeWithinDay t = t mod msPerDay"

text \<open>
  The proleptic Gregorian calendar, as ECMAScript defines it: \<open>DayFromYear y\<close> is the
  day number of 1 January of year \<open>y\<close>, and the year of a day is the largest \<open>y\<close>
  whose first day is not after it. \<open>findYear\<close> finds that year by counting up from a
  year that is not after it.
\<close>

definition InLeapYear :: "int \<Rightarrow> bool" where
  "InLeapYear y = (y mod 4 = 0 \<and> (y mod 100 \<noteq> 0 \<or> y mod 400 = 0))"

definition DaysInYear :: "int \<Rightarrow> int" where
  "DaysInYear y = (if InLeapYear y then 366 else 365)"

definition DayFromYear :: "int \<Rightarrow> int" where
  "DayFromYear y =
     365 * (y - 1970) + (y - 1969) div 4 - (y - 1901) div 100 + (y - 1601) div 400"

function findYear :: "int \<Rightarrow> int \<Rightarrow> int" where
  "findYear day y = (if DayFromYear (y + 1) \<le> day then findYear day (y + 1) else y)"
  by pat_completeness auto
termination
proof (relation "measure (\<lambda>(day, y). nat (day - DayFromYear y))")
  show "wf (measure (\<lambda>(day, y). nat (day - DayFromYear y)))"
    by simp
next
  fix day y :: int
  assume le: "DayFromYear (y + 1) \<le> day"
  have 1: "(y - 1969) div 4 \<le> (y + 1 - 1969) div 4"
    by (rule zdiv_mono1) simp_all
  have 3: "(y - 1601) div 400 \<le> (y + 1 - 1601) div 400"
    by (rule zdiv_mono1) simp_all
  have "(y + 1 - 1901) div 100 \<le> (y - 1901 + 100) div 100"
    by (rule zdiv_mono1) simp_all
  then have 2: "(y + 1 - 1901) div 100 \<le> (y - 1901) div 100 + 1"
    by simp
  have 4: "365 * (y + 1 - 1970) = 365 * (y - 1970) + 365"
    by simp
  have "DayFromYear y < DayFromYear (y + 1)"
    unfolding DayFromYear_def 4 using 1 2 3 by linarith
  with le show "((day, y + 1), (day, y)) \<in> measure (\<lambda>(day, y). nat (day - DayFromYear y))"
    by simp
qed

declare findYear.simps [simp del]

definition yearOfDay :: "int \<Rightarrow> int" where
  "yearOfDay day = findYear day (1970 + (if 0 \<le> day then day div 366 else day div 365))"

definition YearFromTime :: "int \<Rightarrow> int" where
  "YearFromTime t = yearOfDay (Day t)"

definition DayWithinYear :: "int \<Rightarrow> int" where
  "DayWithinYear t = Day t - DayFromYear (YearFromTime t)"

text \<open>
  The day within the year on which month \<open>m\<close> (counted from 0) starts, with \<open>leap\<close>
  1 in a leap year and 0 otherwise; \<open>monthStart 12\<close> is the length of the year.
\<close>

definition monthStart :: "int \<Rightarrow> int \<Rightarrow> int" where
  "monthStart leap m =
     (if m \<le> 0 then 0 else if m = 1 then 31 else if m = 2 then 59 + leap
      else if m = 3 then 90 + leap else if m = 4 then 120 + leap
      else if m = 5 then 151 + leap else if m = 6 then 181 + leap
      else if m = 7 then 212 + leap else if m = 8 then 243 + leap
      else if m = 9 then 273 + leap else if m = 10 then 304 + leap
      else if m = 11 then 334 + leap else 365 + leap)"

definition leapDays :: "int \<Rightarrow> int" where
  "leapDays y = (if InLeapYear y then 1 else 0)"

text \<open>\<open>MonthFromTime\<close> counts months from 0 (January), as \<^verbatim>\<open>getMonth\<close> does.\<close>

definition monthOfDay :: "int \<Rightarrow> int \<Rightarrow> int" where
  "monthOfDay leap dwy =
     (if dwy < 31 then 0 else if dwy < 59 + leap then 1 else if dwy < 90 + leap then 2
      else if dwy < 120 + leap then 3 else if dwy < 151 + leap then 4
      else if dwy < 181 + leap then 5 else if dwy < 212 + leap then 6
      else if dwy < 243 + leap then 7 else if dwy < 273 + leap then 8
      else if dwy < 304 + leap then 9 else if dwy < 334 + leap then 10 else 11)"

definition MonthFromTime :: "int \<Rightarrow> int" where
  "MonthFromTime t = monthOfDay (leapDays (YearFromTime t)) (DayWithinYear t)"

definition DateFromTime :: "int \<Rightarrow> int" where
  "DateFromTime t =
     DayWithinYear t - monthStart (leapDays (YearFromTime t)) (MonthFromTime t) + 1"

text \<open>
  \<open>MakeDay year month date\<close> takes a month counted from 0 that may lie outside
  \<open>0..11\<close> and a day of the month that may lie outside the month; both overflow into
  the neighbouring months and years.
\<close>

definition MakeDay :: "int \<Rightarrow> int \<Rightarrow> int \<Rightarrow> int" where
  "MakeDay year month dt =
     (let ym = year + month div 12; mn = month mod 12
      in DayFromYear ym + monthStart (leapDays ym) mn + dt - 1)"

definition MakeTime :: "int \<Rightarrow> int \<Rightarrow> int \<Rightarrow> int \<Rightarrow> int" where
  "MakeTime h mi s ms = h * 3600000 + mi * 60000 + s * 1000 + ms"

definition MakeDate :: "int \<Rightarrow> int \<Rightarrow> int" where
  "MakeDate day time = day * msPerDay + time"

definition TimeClip :: "int \<Rightarrow> Date" where
  "TimeClip t = (if \<bar>t\<bar> \<le> 8640000000000000 then Some t else None)"

definition LocalTime :: "int \<Rightarrow> int \<Rightarrow> int" where
  "LocalTime tza t = t + tza"

definition UTC :: "int \<Rightarrow> int \<Rightarrow> int" where
  "UTC tza t = t - tza"

subsection \<open>Reading and writing decimal digits\<close>

definition digitVal :: "char \<Rightarrow> int option" where
  "digitVal c = (let n = (of_char c :: nat) in if 48 \<le> n \<and> n \<le> 57 then Some (int n - 48) else None)"

fun parseDigitsFrom :: "int \<Rightarrow> string \<Rightarrow> int option" where
  "parseDigitsFrom acc [] = Some acc"
| "parseDigitsFrom acc (c # cs) =
     (case digitVal c of None \<Rightarrow> None | Some d \<Rightarrow> parseDigitsFrom (10 * acc + d) cs)"

definition parseDigits :: "string \<Rightarrow> int option" where
  "parseDigits s = (if s = [] then None else parseDigitsFrom 0 s)"

definition digitChar :: "int \<Rightarrow> char" where
  "digitChar n = ''0123456789'' ! nat (n mod 10)"

definition pad2 :: "int \<Rightarrow> string" where
  "pad2 n = [digitChar (n div 10), digitChar n]"

definition pad3 :: "int \<Rightarrow> string" where
  "pad3 n = [digitChar (n div 100), digitChar (n div 10), digitChar n]"

definition pad4 :: "int \<Rightarrow> string" where
  "pad4 n = [digitChar (n div 1000), digitChar (n div 100), digitChar (n div 10), digitChar n]"

definition pad6 :: "int \<Rightarrow> string" where
  "pad6 n = [digitChar (n div 100000), digitChar (n div 10000), digitChar (n div 1000),
             digitChar (n div 100), digitChar (n div 10), digitChar n]"

text \<open>\<^verbatim>\<open>Number.prototype.toString\<close> on an integer: its decimal digits, with a sign.\<close>

function digitsOf :: "int \<Rightarrow> string" where
  "digitsOf n = (if n < 10 then [digitChar n] else digitsOf (n div 10) @ [digitChar n])"
  by pat_completeness auto
termination
  by (relation "measure nat") auto

declare digitsOf.simps [simp del]

definition intToString :: "int \<Rightarrow> string" where
  "intToString i = (if i < 0 then CHR ''-'' # digitsOf (- i) else digitsOf i)"

subsection \<open>The date-time string format\<close>

text \<open>
  The date part \<^verbatim>\<open>YYYY-MM-DD\<close>: the month is 01 to 12 and the day 01 to 31, as the
  format says; a day beyond the end of its month overflows through \<open>MakeDay\<close>. The
  result is the day number.
\<close>

definition parseDatePart :: "string \<Rightarrow> int option" where
  "parseDatePart s =
     (if length s = 10 \<and> s ! 4 = CHR ''-'' \<and> s ! 7 = CHR ''-'' then
        (case parseDigits (take 4 s) of None \<Rightarrow> None | Some y \<Rightarrow>
        (case parseDigits (take 2 (drop 5 s)) of None \<Rightarrow> None | Some m \<Rightarrow>
        (case parseDigits (drop 8 s) of None \<Rightarrow> None | Some d \<Rightarrow>
           if 1 \<le> m \<and> m \<le> 12 \<and> 1 \<le> d \<and> d \<le> 31
           then Some (MakeDay y (m - 1) d) else None)))
      else None)"

text \<open>
  The time part \<^verbatim>\<open>HH:mm\<close>, \<^verbatim>\<open>HH:mm:ss\<close> or \<^verbatim>\<open>HH:mm:ss.sss\<close>: the result is the
  number of milliseconds since midnight. Hour 24 is allowed for the end of the day only.
\<close>

definition checkTime :: "int \<Rightarrow> int \<Rightarrow> int \<Rightarrow> int \<Rightarrow> int option" where
  "checkTime h mi s ms =
     (if h \<le> 24 \<and> mi \<le> 59 \<and> s \<le> 59 \<and> (h = 24 \<longrightarrow> mi = 0 \<and> s = 0 \<and> ms = 0)
      then Some (MakeTime h mi s ms) else None)"

definition parseTimePart :: "string \<Rightarrow> int option" where
  "parseTimePart s =
     (if length s = 5 \<and> s ! 2 = CHR '':'' then
        (case parseDigits (take 2 s) of None \<Rightarrow> None | Some h \<Rightarrow>
        (case parseDigits (drop 3 s) of None \<Rightarrow> None | Some mi \<Rightarrow> checkTime h mi 0 0))
      else if length s = 8 \<and> s ! 2 = CHR '':'' \<and> s ! 5 = CHR '':'' then
        (case parseDigits (take 2 s) of None \<Rightarrow> None | Some h \<Rightarrow>
        (case parseDigits (take 2 (drop 3 s)) of None \<Rightarrow> None | Some mi \<Rightarrow>
        (case parseDigits (drop 6 s) of None \<Rightarrow> None | Some sec \<Rightarrow> checkTime h mi sec 0)))
      else if length s = 12 \<and> s ! 2 = CHR '':'' \<and> s ! 5 = CHR '':'' \<and> s ! 8 = CHR ''.'' then
        (case parseDigits (take 2 s) of None \<Rightarrow> None | Some h \<Rightarrow>
        (case parseDigits (take 2 (drop 3 s)) of None \<Rightarrow> None | Some mi \<Rightarrow>
        (case parseDigits (take 2 (drop 6 s)) of None \<Rightarrow> None | Some sec \<Rightarrow>
        (case parseDigits (drop 9 s) of None \<Rightarrow> None | Some ms \<Rightarrow> checkTime h mi sec ms))))
      else None)"

text \<open>
  \<^verbatim>\<open>Date.parse\<close>: a date alone is UTC midnight; a date and a time are local time
  unless \<^verbatim>\<open>Z\<close> follows.
\<close>

definition Date_parse :: "int \<Rightarrow> string \<Rightarrow> Date" where
  "Date_parse tza s =
     (if length s = 10 then
        (case parseDatePart s of None \<Rightarrow> None | Some d \<Rightarrow> Some (MakeDate d 0))
      else if 10 < length s \<and> s ! 10 = CHR ''T'' then
        (let utc = (last s = CHR ''Z'');
             tm = (if utc then butlast (drop 11 s) else drop 11 s)
         in case parseDatePart (take 10 s) of None \<Rightarrow> None | Some d \<Rightarrow>
           (case parseTimePart tm of None \<Rightarrow> None | Some t \<Rightarrow>
              Some (if utc then MakeDate d t else UTC tza (MakeDate d t))))
      else None)"

text \<open>\<^verbatim>\<open>new Date(s)\<close> for a string \<open>s\<close>.\<close>

definition newDate :: "int \<Rightarrow> string \<Rightarrow> Date" where
  "newDate tza s = (case Date_parse tza s of None \<Rightarrow> None | Some t \<Rightarrow> TimeClip t)"

text \<open>
  \<^verbatim>\<open>new Date(year, month, date)\<close>: local midnight of that day; a year from 0 to 99
  means 1900 to 1999.
\<close>

definition newDateYMD :: "int \<Rightarrow> int \<Rightarrow> int \<Rightarrow> int \<Rightarrow> Date" where
  "newDateYMD tza year month dt =
     (let yr = (if 0 \<le> year \<and> year \<le> 99 then 1900 + year else year)
      in TimeClip (UTC tza (MakeDate (MakeDay yr month dt) 0)))"

definition getFullYear :: "int \<Rightarrow> Date \<Rightarrow> int option" where
  "getFullYear tza dt = (case dt of None \<Rightarrow> None | Some t \<Rightarrow> Some (YearFromTime (LocalTime tza t)))"

definition getMonth :: "int \<Rightarrow> Date \<Rightarrow> int option" where
  "getMonth tza dt = (case dt of None \<Rightarrow> None | Some t \<Rightarrow> Some (MonthFromTime (LocalTime tza t)))"

text \<open>
  \<^verbatim>\<open>toISOString\<close>: always UTC, \<^verbatim>\<open>YYYY-MM-DDTHH:mm:ss.sssZ\<close>, with a sign and six
  digits for a year outside 0 to 9999. On an Invalid Date it throws a
  \<^verbatim>\<open>RangeError\<close>, which is \<open>None\<close> here.
\<close>

definition yearString :: "int \<Rightarrow> string" where
  "yearString y =
     (if 0 \<le> y \<and> y \<le> 9999 then pad4 y
      else (if y < 0 then CHR ''-'' else CHR ''+'') # pad6 \<bar>y\<bar>)"

definition toISOString :: "Date \<Rightarrow> string option" where
  "toISOString dt =
     (case dt of None \<Rightarrow> None | Some t \<Rightarrow>
        (let w = TimeWithinDay t in
         Some (yearString (YearFromTime t) @ ''-'' @ pad2 (MonthFromTime t + 1) @ ''-''
               @ pad2 (DateFromTime t) @ ''T''
               @ pad2 (w div 3600000) @ '':'' @ pad2 (w div 60000 mod 60) @ '':''
               @ pad2 (w div 1000 mod 60) @ ''.'' @ pad3 (w mod 1000) @ ''Z'')))"

section \<open>The data model\<close>

text \<open>
  The interfaces \<^verbatim>\<open>Transaction\<close> and \<^verbatim>\<open>Reminder\<close> of the type declarations. A
  \<^verbatim>\<open>number\<close> that holds an amount is a real here: the rounding of IEEE-754 doubles
  is outside the model. The optional field \<^verbatim>\<open>snoozeUntil\<close> is \<open>None\<close> when it is
  \<^verbatim>\<open>undefined\<close> or \<^verbatim>\<open>null\<close>, which the code never tells apart.
\<close>

datatype TransactionType = income | expense

record Transaction =
  id_t :: string
  type_t :: TransactionType
  category :: string
  amount_t :: real
  date :: string
  description :: string

datatype NotificationSound = Sound_default | Sound_beep | Sound_chime | Sound_vibrate | Sound_none

record Reminder =
  id_r :: string
  billName :: string
  amount_r :: real
  dueDate :: string
  dueTime :: string
  notified :: bool
  notificationSound :: NotificationSound
  snoozeUntil :: "string option"

subsection \<open>What the application reads from the browser, and what it emits\<close>

text \<open>
  \<open>notificationPermission\<close> is \<^verbatim>\<open>Notification.permission\<close>, or \<open>None\<close> in a browser
  without the \<^verbatim>\<open>Notification\<close> global, where reading it throws a
  \<^verbatim>\<open>ReferenceError\<close>. \<open>hasAudioContext\<close> says that \<^verbatim>\<open>audioContext\<close> is not null,
  \<open>hasVibrate\<close> that \<^verbatim>\<open>'vibrate' in navigator\<close>. \<open>toFixed2\<close> is
  \<^verbatim>\<open>Number.prototype.toFixed\<close> with two digits and \<open>parseFloat\<close> the global
  function: both are taken as they come. The permission \<open>undetermined\<close> is the value
  \<^verbatim>\<open>'default'\<close>: the user has not been asked, or has not answered.
\<close>

datatype permission = granted | denied | undetermined

record env =
  localTZA :: int
  documentHidden :: bool
  notificationPermission :: "permission option"
  hasAudioContext :: bool
  hasVibrate :: bool
  toFixed2 :: "real \<Rightarrow> string"
  parseFloat :: "string \<Rightarrow> real"

text \<open>
  The effects on the outside world, in the order they are triggered: a sine tone with its
  frequency in Hz, its duration in seconds and the delay in milliseconds after which it
  starts; a vibration pattern; an OS-level notification with its title, its body and its
  \<^verbatim>\<open>silent\<close> option.
\<close>

datatype effect =
    PlayTone real real int
  | VibrateDevice "int list"
  | OSNotification string string bool

datatype js_error = ReferenceError | RangeError

text \<open>
  The state of \<^verbatim>\<open>BudgetTrackerApp\<close> that the reminder engine touches: the persisted
  reminders, the in-app toasts, and the effects emitted so far.
\<close>

record appState =
  reminders :: "Reminder list"
  activeNotifications :: "Reminder list"
  effects :: "effect list"

section \<open>The reminder engine\<close>

subsection \<open>\<^verbatim>\<open>playNotificationSound\<close>\<close>

definition playNotificationSound :: "env \<Rightarrow> NotificationSound \<Rightarrow> effect list" where
  "playNotificationSound e sound =
     (if \<not> hasAudioContext e then []
      else (case sound of
              Sound_beep \<Rightarrow> [PlayTone 880 0.2 0]
            | Sound_chime \<Rightarrow> [PlayTone 1046.5 0.15 0, PlayTone 1396.9 0.15 150]
            | Sound_vibrate \<Rightarrow> (if hasVibrate e then [VibrateDevice [200, 100, 200]] else [])
            | Sound_default \<Rightarrow> []
            | Sound_none \<Rightarrow> []))"

subsection \<open>\<^verbatim>\<open>checkReminders\<close>\<close>

text \<open>
  The conditions computed for each reminder. \<open>isSnoozed\<close> is
  \<^verbatim>\<open>r.snoozeUntil && now < new Date(r.snoozeUntil)\<close>: a missing, null or empty
  \<^verbatim>\<open>snoozeUntil\<close> is falsy.
\<close>

definition isDue :: "int \<Rightarrow> int \<Rightarrow> Reminder \<Rightarrow> bool" where
  "isDue tza now r = date_le (newDate tza (dueDate r @ ''T'' @ dueTime r)) (Some now)"

definition isSnoozed :: "int \<Rightarrow> int \<Rightarrow> Reminder \<Rightarrow> bool" where
  "isSnoozed tza now r =
     (case snoozeUntil r of None \<Rightarrow> False
      | Some u \<Rightarrow> u \<noteq> [] \<and> date_lt (Some now) (newDate tza u))"

text \<open>
  The \<^verbatim>\<open>reminders.map\<close> of \<^verbatim>\<open>checkReminders\<close>, whose callback also pushes onto
  \<^verbatim>\<open>dueReminders\<close>: the result is the pair of \<^verbatim>\<open>updatedReminders\<close> and
  \<^verbatim>\<open>dueReminders\<close>. The callback runs on the reminders from the first to the last, so
  both lists are in the order of the store.
\<close>

fun checkReminders_map :: "int \<Rightarrow> int \<Rightarrow> Reminder list \<Rightarrow> Reminder list \<times> Reminder list" where
  "checkReminders_map tza now [] = ([], [])"
| "checkReminders_map tza now (r # rs) =
     (case checkReminders_map tza now rs of (updatedReminders, dueReminders) \<Rightarrow>
        if isDue tza now r \<and> \<not> notified r \<and> \<not> isSnoozed tza now r
        then (r\<lparr>notified := True\<rparr> # updatedReminders, r # dueReminders)
        else (r # updatedReminders, dueReminders))"

text \<open>
  The body of \<^verbatim>\<open>dueReminders.forEach\<close>: the sound first, then the channel. The result
  is the state and the error thrown, if any.
\<close>

definition notification_body :: "env \<Rightarrow> Reminder \<Rightarrow> string" where
  "notification_body e r = billName r @ '' for $'' @ toFixed2 e (amount_r r) @ '' is due!''"

definition notifyDue :: "env \<Rightarrow> Reminder \<Rightarrow> appState \<Rightarrow> appState \<times> js_error option" where
  "notifyDue e r s =
     (let s1 = s\<lparr>effects := effects s @ playNotificationSound e (notificationSound r)\<rparr> in
      if documentHidden e then
        (case notificationPermission e of
           None \<Rightarrow> (s1, Some ReferenceError)
         | Some p \<Rightarrow>
             (if p = granted
              then s1\<lparr>effects := effects s1 @
                     [OSNotification ''Bill Reminder'' (notification_body e r)
                        (notificationSound r \<noteq> Sound_default)]\<rparr>
              else s1, None))
      else (s1\<lparr>activeNotifications :=
                  filter (\<lambda>n. id_r n \<noteq> id_r r) (activeNotifications s1) @ [r]\<rparr>, None))"

fun forEachDue :: "env \<Rightarrow> Reminder list \<Rightarrow> appState \<Rightarrow> appState \<times> js_error option" where
  "forEachDue e [] s = (s, None)"
| "forEachDue e (r # rs) s =
     (case notifyDue e r s of
        (s1, None) \<Rightarrow> forEachDue e rs s1
      | (s1, Some err) \<Rightarrow> (s1, Some err))"

text \<open>\<^verbatim>\<open>checkReminders\<close>, with \<open>now\<close> the time value of \<^verbatim>\<open>new Date()\<close>.\<close>

definition checkReminders :: "env \<Rightarrow> int \<Rightarrow> appState \<Rightarrow> appState \<times> js_error option" where
  "checkReminders e now s =
     (case checkReminders_map (localTZA e) now (reminders s) of (updatedReminders, dueReminders) \<Rightarrow>
        if 0 < length dueReminders
        then forEachDue e dueReminders (s\<lparr>reminders := updatedReminders\<rparr>)
        else (s, None))"

subsection \<open>The reminder handlers\<close>

definition handleSaveReminder :: "Reminder \<Rightarrow> appState \<Rightarrow> appState" where
  "handleSaveReminder reminder s =
     s\<lparr>reminders :=
         (case find (\<lambda>r. id_r r = id_r reminder) (reminders s) of
            Some existing \<Rightarrow> map (\<lambda>r. if id_r r = id_r reminder then reminder else r) (reminders s)
          | None \<Rightarrow> reminders s @ [reminder])\<rparr>"

definition handleDeleteReminder :: "string \<Rightarrow> appState \<Rightarrow> appState" where
  "handleDeleteReminder rid s = s\<lparr>reminders := filter (\<lambda>r. id_r r \<noteq> rid) (reminders s)\<rparr>"

text \<open>
  \<^verbatim>\<open>handleSnoozeReminder\<close>, with \<open>now\<close> the value of \<^verbatim>\<open>Date.now()\<close>. The updater of
  \<^verbatim>\<open>setReminders\<close> runs inside the \<^verbatim>\<open>try\<close> of \<^verbatim>\<open>useLocalStorage\<close>: if
  \<^verbatim>\<open>toISOString\<close> throws there, which it does for the first reminder with that id when
  the time is out of range, the error is logged and the reminders stay as they are.
\<close>

definition handleSnoozeReminder :: "int \<Rightarrow> string \<Rightarrow> appState \<Rightarrow> appState" where
  "handleSnoozeReminder now rid s =
     (let s1 =
        (case toISOString (TimeClip (now + 10 * 60 * 1000)) of
           Some snooze \<Rightarrow>
             s\<lparr>reminders :=
                 map (\<lambda>r. if id_r r = rid then r\<lparr>snoozeUntil := Some snooze, notified := False\<rparr> else r)
                   (reminders s)\<rparr>
         | None \<Rightarrow> s)
      in s1\<lparr>activeNotifications := filter (\<lambda>n. id_r n \<noteq> rid) (activeNotifications s1)\<rparr>)"

definition handleDismissNotification :: "string \<Rightarrow> appState \<Rightarrow> appState" where
  "handleDismissNotification rid s =
     s\<lparr>activeNotifications := filter (\<lambda>n. id_r n \<noteq> rid) (activeNotifications s)\<rparr>"

subsection \<open>\<^verbatim>\<open>ReminderModal\<close>\<close>

text \<open>The fields of the form, as the user left them.\<close>

record ReminderForm =
  form_billName :: string
  form_amount :: string
  form_dueDate :: string
  form_dueTime :: string
  form_notificationSound :: NotificationSound

text \<open>
  \<^verbatim>\<open>handleSubmit\<close> builds the reminder it hands to \<^verbatim>\<open>onSave\<close>. \<open>now\<close> is the time
  value of \<^verbatim>\<open>new Date()\<close>, \<open>reminderToEdit\<close> the reminder the form was opened on, or
  \<open>None\<close> for a new one.
\<close>

definition shouldResetStatus :: "env \<Rightarrow> int \<Rightarrow> ReminderForm \<Rightarrow> Reminder option \<Rightarrow> bool" where
  "shouldResetStatus e now f reminderToEdit =
     (case reminderToEdit of
        None \<Rightarrow> False
      | Some old \<Rightarrow>
          (dueDate old \<noteq> form_dueDate f \<or> dueTime old \<noteq> form_dueTime f) \<and>
          date_gt (newDate (localTZA e) (form_dueDate f @ ''T'' @ form_dueTime f)) (Some now))"

definition handleSubmit :: "env \<Rightarrow> int \<Rightarrow> ReminderForm \<Rightarrow> Reminder option \<Rightarrow> Reminder" where
  "handleSubmit e now f reminderToEdit =
     \<lparr> id_r = (case reminderToEdit of Some old \<Rightarrow> id_r old | None \<Rightarrow> intToString now),
       billName = form_billName f,
       amount_r = parseFloat e (form_amount f),
       dueDate = form_dueDate f,
       dueTime = form_dueTime f,
       notified = (if shouldResetStatus e now f reminderToEdit then False
                   else (case reminderToEdit of Some old \<Rightarrow> notified old | None \<Rightarrow> False)),
       notificationSound = form_notificationSound f,
       snoozeUntil = (if shouldResetStatus e now f reminderToEdit then None
                      else (case reminderToEdit of Some old \<Rightarrow> snoozeUntil old | None \<Rightarrow> None)) \<rparr>"

section \<open>The month view\<close>

text \<open>
  \<open>viewDate\<close> is the \<^verbatim>\<open>Date\<close> of the month on display: \<^verbatim>\<open>new Date()\<close> at first,
  then what \<^verbatim>\<open>changeMonth\<close> of the \<^verbatim>\<open>MonthNavigator\<close> makes of it.
\<close>

definition sameMonth :: "int \<Rightarrow> Date \<Rightarrow> Date \<Rightarrow> bool" where
  "sameMonth tza d viewDate =
     (strict_eq (getFullYear tza d) (getFullYear tza viewDate) \<and>
      strict_eq (getMonth tza d) (getMonth tza viewDate))"

definition filteredTransactions :: "int \<Rightarrow> Transaction list \<Rightarrow> Date \<Rightarrow> Transaction list" where
  "filteredTransactions tza transactions viewDate =
     filter (\<lambda>t. sameMonth tza (newDate tza (date t)) viewDate) transactions"

definition filteredReminders :: "int \<Rightarrow> Reminder list \<Rightarrow> Date \<Rightarrow> Reminder list" where
  "filteredReminders tza rs viewDate =
     filter (\<lambda>r. sameMonth tza (newDate tza (dueDate r)) viewDate) rs"

definition changeMonth :: "int \<Rightarrow> Date \<Rightarrow> int \<Rightarrow> Date" where
  "changeMonth tza viewDate amount =
     (case getFullYear tza viewDate of None \<Rightarrow> None | Some y \<Rightarrow>
     (case getMonth tza viewDate of None \<Rightarrow> None | Some m \<Rightarrow> newDateYMD tza y (m + amount) 1))"

text \<open>The three totals of the summary cards, computed from the filtered transactions.\<close>

definition totalIncome :: "Transaction list \<Rightarrow> real" where
  "totalIncome filtered =
     foldl (\<lambda>sum t. sum + amount_t t) 0 (filter (\<lambda>t. type_t t = income) filtered)"

definition totalExpenses :: "Transaction list \<Rightarrow> real" where
  "totalExpenses filtered =
     foldl (\<lambda>sum t. sum + amount_t t) 0 (filter (\<lambda>t. type_t t = expense) filtered)"

definition balance :: "Transaction list \<Rightarrow> real" where
  "balance filtered = totalIncome filtered - totalExpenses filtered"

section \<open>The vocabulary of the specification\<close>

text \<open>
  The due-instant of a reminder, \<open>combine(dueDate, dueTime)\<close>: the date and the time
  read together as one local date-time.
\<close>

definition dueInstant :: "int \<Rightarrow> Reminder \<Rightarrow> Date" where
  "dueInstant tza r = newDate tza (dueDate r @ ''T'' @ dueTime r)"

text \<open>
  A reminder is snoozed iff \<open>snoozeUntil\<close> is present and \<open>now < snoozeUntil\<close>; it is
  newly due iff its due-instant is at most \<open>now\<close>, it is not notified and it is not
  snoozed.
\<close>

definition snoozed_spec :: "int \<Rightarrow> int \<Rightarrow> Reminder \<Rightarrow> bool" where
  "snoozed_spec tza now r =
     (case snoozeUntil r of None \<Rightarrow> False
      | Some u \<Rightarrow> (case newDate tza u of None \<Rightarrow> False | Some v \<Rightarrow> now < v))"

definition newlyDue_spec :: "int \<Rightarrow> int \<Rightarrow> Reminder \<Rightarrow> bool" where
  "newlyDue_spec tza now r =
     ((case dueInstant tza r of None \<Rightarrow> False | Some d \<Rightarrow> d \<le> now)
      \<and> notified r = False \<and> \<not> snoozed_spec tza now r)"

text \<open>
  A sequence of evaluations at the instants \<open>ts\<close>, each on the updated list of the one
  before: the result is the fired list of every evaluation, in order.
\<close>

fun runTicks :: "int \<Rightarrow> int list \<Rightarrow> Reminder list \<Rightarrow> Reminder list list" where
  "runTicks tza [] rs = []"
| "runTicks tza (t # ts) rs =
     (case checkReminders_map tza t rs of (updatedReminders, dueReminders) \<Rightarrow>
        dueReminders # runTicks tza ts updatedReminders)"

text \<open>The effects a step has added to the log.\<close>

definition emitted :: "appState \<Rightarrow> appState \<Rightarrow> effect list" where
  "emitted s s' = drop (length (effects s)) (effects s')"

fun isOSNotification :: "effect \<Rightarrow> bool" where
  "isOSNotification (OSNotification title body silent) = True"
| "isOSNotification (PlayTone freq duration delay) = False"
| "isOSNotification (VibrateDevice pattern) = False"


text \<open>
  The day of the calendar a date string \<^verbatim>\<open>YYYY-MM-DD\<close> names, if it names one (year,
  month from 1, day of the month); the year and the month it names; and the month filter
  as the specification words it: an exact match of the calendar year and the calendar
  month (counted from 1) of the date field.
\<close>

definition calendarDate :: "string \<Rightarrow> (int \<times> int \<times> int) option" where
  "calendarDate s =
     (if length s = 10 \<and> s ! 4 = CHR ''-'' \<and> s ! 7 = CHR ''-'' then
        (case parseDigits (take 4 s) of None \<Rightarrow> None | Some y \<Rightarrow>
        (case parseDigits (take 2 (drop 5 s)) of None \<Rightarrow> None | Some m \<Rightarrow>
        (case parseDigits (drop 8 s) of None \<Rightarrow> None | Some d \<Rightarrow>
           if 1 \<le> m \<and> m \<le> 12 \<and> 1 \<le> d
              \<and> d \<le> monthStart (leapDays y) m - monthStart (leapDays y) (m - 1)
           then Some (y, m, d) else None)))
      else None)"

definition dateField_year :: "string \<Rightarrow> int option" where
  "dateField_year s = parseDigits (take 4 s)"

definition dateField_month :: "string \<Rightarrow> int option" where
  "dateField_month s = parseDigits (take 2 (drop 5 s))"

definition filterToMonth_spec :: "Transaction list \<Rightarrow> int \<Rightarrow> int \<Rightarrow> Transaction list" where
  "filterToMonth_spec items year month =
     filter (\<lambda>t. dateField_year (date t) = Some year \<and> dateField_month (date t) = Some month) items"

subsection \<open>The operations on the state\<close>

text \<open>
  The operations a user or the timer can perform, each with what it reads from the
  outside: a tick of the 30-second timer, the submission of the reminder form (an add
  when \<open>reminderToEdit\<close> is \<open>None\<close>, an edit otherwise), a delete, a snooze and a
  dismiss. An error thrown in a tick is lost in the timer: the state stays as the tick
  left it.
\<close>

datatype action =
    Tick env int
  | Submit env int ReminderForm "Reminder option"
  | Delete string
  | Snooze int string
  | Dismiss string

fun step :: "appState \<Rightarrow> action \<Rightarrow> appState" where
  "step s (Tick e now) = fst (checkReminders e now s)"
| "step s (Submit e now f reminderToEdit) = handleSaveReminder (handleSubmit e now f reminderToEdit) s"
| "step s (Delete rid) = handleDeleteReminder rid s"
| "step s (Snooze now rid) = handleSnoozeReminder now rid s"
| "step s (Dismiss rid) = handleDismissNotification rid s"

definition run :: "appState \<Rightarrow> action list \<Rightarrow> appState" where
  "run s acts = foldl step s acts"

fun isDelete :: "action \<Rightarrow> bool" where
  "isDelete (Delete rid) = True"
| "isDelete (Tick e now) = False"
| "isDelete (Submit e now f reminderToEdit) = False"
| "isDelete (Snooze now rid) = False"
| "isDelete (Dismiss rid) = False"

text \<open>Every toast belongs to a reminder of the store, by id.\<close>

definition toasts_in_store :: "appState \<Rightarrow> bool" where
  "toasts_in_store s = (set (map id_r (activeNotifications s)) \<subseteq> set (map id_r (reminders s)))"

definition startState :: "Reminder list \<Rightarrow> appState" where
  "startState rs = \<lparr> reminders = rs, activeNotifications = [], effects = [] \<rparr>"

subsection \<open>Sample data\<close>

text \<open>
  A reminder due on 1 March 2024 at 09:00, the same reminder already notified, and one
  like it snoozed until 09:10; a browser in the foreground whose local time is UTC and the
  same browser in a background tab; the form of an edit that moves the due date to
  1 April 2024 and the form of an edit that leaves every field of the rent reminder as it
  is; a transaction dated 1 February 2024 and one dated 31 January 2024.
  The instants used below: 09:00 is \<open>1709283600000\<close>, 09:05 is \<open>1709283900000\<close>,
  09:10 is \<open>1709284200000\<close>, 09:15 is \<open>1709284500000\<close>.
\<close>

definition rent :: Reminder where
  "rent = \<lparr> id_r = ''1708000000000'', billName = ''Rent'', amount_r = 1200,
            dueDate = ''2024-03-01'', dueTime = ''09:00'', notified = False,
            notificationSound = Sound_default, snoozeUntil = None \<rparr>"

definition rentPaid :: Reminder where
  "rentPaid = rent\<lparr>notified := True\<rparr>"

definition rentSnoozed :: Reminder where
  "rentSnoozed = rent\<lparr>id_r := ''1708000000001'', snoozeUntil := Some ''2024-03-01T09:10:00.000Z''\<rparr>"

text \<open>
  For the sample browser, \<^verbatim>\<open>toFixed(2)\<close> and \<^verbatim>\<open>parseFloat\<close> in exact decimal
  arithmetic: the first rounds to the nearest hundredth, a tie away from zero (for numbers
  below \<open>10\<^sup>2\<^sup>1\<close>); the second reads a sign, digits and a fraction at the start of the
  string.
\<close>

definition toFixed2_exact :: "real \<Rightarrow> string" where
  "toFixed2_exact x =
     (let n = \<lfloor>\<bar>x\<bar> * 100 + 1 / 2\<rfloor>;
          digits = intToString (n div 100) @ ''.'' @ pad2 (n mod 100)
      in if x < 0 then CHR ''-'' # digits else digits)"

fun fractionOf :: "string \<Rightarrow> real" where
  "fractionOf [] = 0"
| "fractionOf (c # cs) =
     (case digitVal c of None \<Rightarrow> 0 | Some d \<Rightarrow> (of_int d + fractionOf cs) / 10)"

definition parseFloat_exact :: "string \<Rightarrow> real" where
  "parseFloat_exact s =
     (let neg = (s \<noteq> [] \<and> hd s = CHR ''-'');
          body = (if neg then tl s else s);
          ip = takeWhile (\<lambda>c. digitVal c \<noteq> None) body;
          rest = dropWhile (\<lambda>c. digitVal c \<noteq> None) body;
          fp = (if rest \<noteq> [] \<and> hd rest = CHR ''.''
                then takeWhile (\<lambda>c. digitVal c \<noteq> None) (tl rest) else []);
          v = (case parseDigits ip of None \<Rightarrow> 0 | Some i \<Rightarrow> of_int i) + fractionOf fp
      in if neg then - v else v)"

definition browser :: env where
  "browser = \<lparr> localTZA = 0, documentHidden = False, notificationPermission = Some granted,
               hasAudioContext = True, hasVibrate = True,
               toFixed2 = toFixed2_exact, parseFloat = parseFloat_exact \<rparr>"

definition backgroundTab :: env where
  "backgroundTab = browser\<lparr>documentHidden := True\<rparr>"

definition rentForm :: ReminderForm where
  "rentForm = \<lparr> form_billName = ''Rent'', form_amount = ''1200'', form_dueDate = ''2024-04-01'',
                form_dueTime = ''09:00'', form_notificationSound = Sound_default \<rparr>"

definition rentUnchanged :: ReminderForm where
  "rentUnchanged = rentForm\<lparr>form_dueDate := ''2024-03-01''\<rparr>"

definition groceries :: Transaction where
  "groceries = \<lparr> id_t = ''1706800000000'', type_t = expense, category = ''Groceries'',
                 amount_t = 40, date = ''2024-02-01'', description = [] \<rparr>"

definition salary :: Transaction where
  "salary = \<lparr> id_t = ''1706700000000'', type_t = income, category = ''Salary'',
              amount_t = 100, date = ''2024-01-31'', description = [] \<rparr>"

section \<open>Properties of the platform model\<close>

subsection \<open>The year of a day\<close>

text \<open>
  \<open>findYear\<close> returns the year the day lies in, provided it starts at a year that is not
  after the day; the two estimates \<open>yearOfDay\<close> starts from are such years.
\<close>

lemma findYear_lower: "DayFromYear y \<le> day \<Longrightarrow> DayFromYear (findYear day y) \<le> day"
proof (induction day y rule: findYear.induct)
  case (1 day y)
  show ?case
  proof (cases "DayFromYear (y + 1) \<le> day")
    case True
    with "1.IH" show ?thesis by (subst findYear.simps) simp
  next
    case False
    with "1.prems" show ?thesis by (subst findYear.simps) simp
  qed
qed

lemma findYear_upper: "day < DayFromYear (findYear day y + 1)"
proof (induction day y rule: findYear.induct)
  case (1 day y)
  show ?case
  proof (cases "DayFromYear (y + 1) \<le> day")
    case True
    with "1.IH" show ?thesis by (subst findYear.simps) simp
  next
    case False
    then show ?thesis by (subst findYear.simps) simp
  qed
qed

lemma div_bounds:
  fixes x n :: int
  assumes "0 < n"
  shows "n * (x div n) \<le> x" and "x < n * (x div n) + n"
proof -
  have "x = n * (x div n) + x mod n" by simp
  moreover have "0 \<le> x mod n" "x mod n < n" using assms by simp_all
  ultimately show "n * (x div n) \<le> x" and "x < n * (x div n) + n" by linarith+
qed

lemma estimate_nonneg: "0 \<le> day \<Longrightarrow> DayFromYear (1970 + day div 366) \<le> day"
proof -
  assume d: "0 \<le> day"
  define k where "k = day div 366"
  have k0: "0 \<le> k" using d by (simp add: k_def)
  have k1: "366 * k \<le> day" unfolding k_def by (rule div_bounds) simp
  define a where "a = (1 + k) div 4"
  define b where "b = (69 + k) div 100"
  define c where "c = (369 + k) div 400"
  have a: "4 * a \<le> 1 + k" unfolding a_def by (rule div_bounds) simp
  have b: "69 + k < 100 * b + 100" unfolding b_def by (rule div_bounds) simp
  have c: "400 * c \<le> 369 + k" unfolding c_def by (rule div_bounds) simp
  have b0: "0 \<le> b" unfolding b_def using k0 by simp
  have "a - b + c \<le> k"
  proof (cases "k \<le> 30")
    case True
    then have "c = 0" unfolding c_def using k0 by simp
    moreover have "a \<le> k" using a k0 by linarith
    ultimately show ?thesis using b0 by linarith
  next
    case False
    then show ?thesis using a b c by linarith
  qed
  moreover have "DayFromYear (1970 + k) = 365 * k + a - b + c"
    by (simp add: DayFromYear_def a_def b_def c_def)
  ultimately show ?thesis using k1 unfolding k_def by linarith
qed

lemma estimate_neg: "day < 0 \<Longrightarrow> DayFromYear (1970 + day div 365) \<le> day"
proof -
  assume d: "day < 0"
  define k where "k = day div 365"
  have k0: "k < 0" using d by (simp add: k_def div_neg_pos_less0)
  have k1: "365 * k \<le> day" unfolding k_def by (rule div_bounds) simp
  define a where "a = (1 + k) div 4"
  define b where "b = (69 + k) div 100"
  define c where "c = (369 + k) div 400"
  have a: "4 * a \<le> 1 + k" unfolding a_def by (rule div_bounds) simp
  have b: "69 + k < 100 * b + 100" unfolding b_def by (rule div_bounds) simp
  have c: "400 * c \<le> 369 + k" unfolding c_def by (rule div_bounds) simp
  have "a - b + c \<le> 0"
  proof (cases "- 6 \<le> k")
    case True
    then have "b = 0" "c = 0" unfolding b_def c_def using k0 by simp_all
    then show ?thesis using a k0 by linarith
  next
    case False
    then show ?thesis using a b c by linarith
  qed
  moreover have "DayFromYear (1970 + k) = 365 * k + a - b + c"
    by (simp add: DayFromYear_def a_def b_def c_def)
  ultimately show ?thesis using k1 unfolding k_def by linarith
qed

lemma yearOfDay_lower: "DayFromYear (yearOfDay day) \<le> day"
  unfolding yearOfDay_def
  by (rule findYear_lower) (simp add: estimate_nonneg estimate_neg)

lemma yearOfDay_upper: "day < DayFromYear (yearOfDay day + 1)"
  unfolding yearOfDay_def by (rule findYear_upper)


subsection \<open>The length of a year\<close>

text \<open>
  The first day of the next year is \<open>DaysInYear\<close> days after the first day of this one:
  \<open>DayFromYear\<close> and the leap-year rule agree.
\<close>

lemma succ_div:
  fixes x n :: int
  assumes "0 < n"
  shows "(x + 1) div n = x div n + (if (x + 1) mod n = 0 then 1 else 0)"
proof (cases "x mod n + 1 < n")
  case True
  have eq: "x + 1 = n * (x div n) + (x mod n + 1)" by simp
  have r0: "0 \<le> x mod n + 1" using assms by (simp add: add_nonneg_nonneg)
  have "(x + 1) div n = x div n"
    by (rule int_div_pos_eq[OF eq r0 True])
  moreover have "(x + 1) mod n = x mod n + 1"
    by (rule int_mod_pos_eq[OF eq r0 True])
  moreover have "0 \<le> x mod n" using assms by simp
  ultimately show ?thesis by simp
next
  case False
  have "x mod n < n" using assms by simp
  with False have r: "x mod n + 1 = n" by linarith
  have "x = n * (x div n) + x mod n" by simp
  with r have "x + 1 = n * (x div n) + n" by linarith
  then have eq: "x + 1 = n * (x div n + 1) + 0" by (simp add: algebra_simps)
  have "(x + 1) div n = x div n + 1"
    by (rule int_div_pos_eq[OF eq]) (use assms in simp_all)
  moreover have "(x + 1) mod n = 0"
    by (rule int_mod_pos_eq[OF eq]) (use assms in simp_all)
  ultimately show ?thesis by simp
qed

lemma mod_shift:
  fixes y n k :: int
  shows "(y - k * n) mod n = y mod n"
proof -
  have "(y - k * n + k * n) mod n = (y - k * n) mod n"
    by (rule mod_mult_self1)
  then show ?thesis by simp
qed

lemma step4: "((y::int) - 1969 + 1) div 4 = (y - 1969) div 4 + (if y mod 4 = 0 then 1 else 0)"
proof -
  have "(y - 1969 + 1) mod 4 = (y - 492 * 4) mod 4" by simp
  also have "\<dots> = y mod 4" by (rule mod_shift)
  finally show ?thesis using succ_div[of 4 "y - 1969"] by simp
qed

lemma step100: "((y::int) - 1901 + 1) div 100 = (y - 1901) div 100 + (if y mod 100 = 0 then 1 else 0)"
proof -
  have "(y - 1901 + 1) mod 100 = (y - 19 * 100) mod 100" by simp
  also have "\<dots> = y mod 100" by (rule mod_shift)
  finally show ?thesis using succ_div[of 100 "y - 1901"] by simp
qed

lemma step400: "((y::int) - 1601 + 1) div 400 = (y - 1601) div 400 + (if y mod 400 = 0 then 1 else 0)"
proof -
  have "(y - 1601 + 1) mod 400 = (y - 4 * 400) mod 400" by simp
  also have "\<dots> = y mod 400" by (rule mod_shift)
  finally show ?thesis using succ_div[of 400 "y - 1601"] by simp
qed

lemma mod_100_4: "(y::int) mod 100 = 0 \<Longrightarrow> y mod 4 = 0"
proof -
  assume "y mod 100 = 0"
  then have "100 dvd y" by (simp add: mod_eq_0_iff_dvd)
  moreover have "(4::int) dvd 100" by simp
  ultimately have "4 dvd y" by (rule dvd_trans[rotated])
  then show ?thesis by (simp add: mod_eq_0_iff_dvd)
qed

lemma mod_400_100: "(y::int) mod 400 = 0 \<Longrightarrow> y mod 100 = 0"
proof -
  assume "y mod 400 = 0"
  then have "400 dvd y" by (simp add: mod_eq_0_iff_dvd)
  moreover have "(100::int) dvd 400" by simp
  ultimately have "100 dvd y" by (rule dvd_trans[rotated])
  then show ?thesis by (simp add: mod_eq_0_iff_dvd)
qed

lemma DayFromYear_Suc: "DayFromYear (y + 1) = DayFromYear y + DaysInYear y"
proof -
  have e: "y + 1 - 1969 = y - 1969 + 1" "y + 1 - 1901 = y - 1901 + 1" "y + 1 - 1601 = y - 1601 + 1"
     "365 * (y + 1 - 1970) = 365 * (y - 1970) + 365"
    by simp_all
  have D: "DayFromYear (y + 1) = 365 * (y - 1970) + 365 + ((y - 1969) div 4 + (if y mod 4 = 0 then 1 else 0))
       - ((y - 1901) div 100 + (if y mod 100 = 0 then 1 else 0)) + ((y - 1601) div 400 + (if y mod 400 = 0 then 1 else 0))"
    unfolding DayFromYear_def e step4 step100 step400 by (rule refl)
  show ?thesis
  proof (cases "y mod 4 = 0")
    case False
    have n100: "y mod 100 \<noteq> 0"
    proof
      assume "y mod 100 = 0"
      from mod_100_4[OF this] False show False by contradiction
    qed
    have "y mod 400 \<noteq> 0"
    proof
      assume "y mod 400 = 0"
      from mod_400_100[OF this] n100 show False by contradiction
    qed
    note n100 this
    with False show ?thesis unfolding D by (simp add: DayFromYear_def DaysInYear_def InLeapYear_def)
  next
    case True
    show ?thesis
    proof (cases "y mod 100 = 0")
      case F: False
      have "y mod 400 \<noteq> 0"
      proof
        assume "y mod 400 = 0"
        from mod_400_100[OF this] F show False by contradiction
      qed
      with True F show ?thesis unfolding D by (simp add: DayFromYear_def DaysInYear_def InLeapYear_def)
    next
      case T: True
      show ?thesis
      proof (cases "y mod 400 = 0")
        case True
        with T \<open>y mod 4 = 0\<close> show ?thesis unfolding D by (simp add: DayFromYear_def DaysInYear_def InLeapYear_def)
      next
        case False
        with T \<open>y mod 4 = 0\<close> show ?thesis unfolding D by (simp add: DayFromYear_def DaysInYear_def InLeapYear_def)
      qed
    qed
  qed
qed


subsection \<open>Months and days of the month\<close>

lemma DayWithinYear_bounds:
  "0 \<le> DayWithinYear t" "DayWithinYear t < 365 + leapDays (YearFromTime t)"
proof -
  show "0 \<le> DayWithinYear t"
    using yearOfDay_lower[of "Day t"] by (simp add: DayWithinYear_def YearFromTime_def)
  have "Day t < DayFromYear (YearFromTime t) + DaysInYear (YearFromTime t)"
    using yearOfDay_upper[of "Day t"] by (simp add: YearFromTime_def DayFromYear_Suc)
  then show "DayWithinYear t < 365 + leapDays (YearFromTime t)"
    by (simp add: DayWithinYear_def DaysInYear_def leapDays_def split: if_splits)
qed

lemma month_day_bounds:
  assumes "leap = 0 \<or> leap = 1" "0 \<le> dwy" "dwy < 365 + leap"
  shows "0 \<le> monthOfDay leap dwy" "monthOfDay leap dwy \<le> 11"
    "1 \<le> dwy - monthStart leap (monthOfDay leap dwy) + 1"
    "dwy - monthStart leap (monthOfDay leap dwy) + 1 \<le> 31"
  using assms by (auto simp: monthOfDay_def monthStart_def)

lemma leapDays_cases: "leapDays y = 0 \<or> leapDays y = 1"
  by (simp add: leapDays_def)

lemma MonthFromTime_bounds: "0 \<le> MonthFromTime t" "MonthFromTime t \<le> 11"
  unfolding MonthFromTime_def
  using month_day_bounds(1,2)[OF leapDays_cases DayWithinYear_bounds] by blast+

lemma DateFromTime_bounds: "1 \<le> DateFromTime t" "DateFromTime t \<le> 31"
  unfolding DateFromTime_def MonthFromTime_def
  using month_day_bounds(3,4)[OF leapDays_cases DayWithinYear_bounds] by blast+

lemma MakeDay_inverse: "MakeDay (YearFromTime t) (MonthFromTime t) (DateFromTime t) = Day t"
proof -
  have "MonthFromTime t div 12 = 0" "MonthFromTime t mod 12 = MonthFromTime t"
    using MonthFromTime_bounds[of t] by simp_all
  then show ?thesis
    by (simp add: MakeDay_def DateFromTime_def DayWithinYear_def)
qed


subsection \<open>Years of four digits\<close>

lemma DayFromYear_mono: "y \<le> y' \<Longrightarrow> DayFromYear y \<le> DayFromYear y'"
proof (induction y' rule: int_ge_induct)
  case base
  show ?case by simp
next
  case (step i)
  have "0 \<le> DaysInYear i" by (simp add: DaysInYear_def)
  with step.IH show ?case by (simp add: DayFromYear_Suc)
qed

lemma yearOfDay_range:
  assumes "DayFromYear lo \<le> day" "day < DayFromYear hi"
  shows "lo \<le> yearOfDay day" "yearOfDay day < hi"
proof -
  show "lo \<le> yearOfDay day"
  proof (rule ccontr)
    assume "\<not> lo \<le> yearOfDay day"
    then have "yearOfDay day + 1 \<le> lo" by simp
    from DayFromYear_mono[OF this] yearOfDay_upper[of day] assms(1) show False by simp
  qed
  show "yearOfDay day < hi"
  proof (rule ccontr)
    assume "\<not> yearOfDay day < hi"
    then have "hi \<le> yearOfDay day" by simp
    from DayFromYear_mono[OF this] yearOfDay_lower[of day] assms(2) show False by simp
  qed
qed

lemma YearFromTime_four_digits:
  assumes "- 62167219200000 \<le> t" "t < 253402300800000"
  shows "0 \<le> YearFromTime t" "YearFromTime t \<le> 9999"
proof -
  have lo: "DayFromYear 0 \<le> Day t"
  proof -
    have "(- 62167219200000) div msPerDay \<le> t div msPerDay"
      by (rule zdiv_mono1[OF assms(1)]) (simp add: msPerDay_def)
    then show ?thesis by (simp add: DayFromYear_def Day_def msPerDay_def)
  qed
  have hi: "Day t < DayFromYear 10000"
  proof -
    have "t div msPerDay \<le> 253402300799999 div msPerDay"
      by (rule zdiv_mono1) (use assms(2) in \<open>simp_all add: msPerDay_def\<close>)
    then show ?thesis by (simp add: DayFromYear_def Day_def msPerDay_def)
  qed
  from yearOfDay_range[OF lo hi] show "0 \<le> YearFromTime t" "YearFromTime t \<le> 9999"
    by (simp_all add: YearFromTime_def)
qed

subsection \<open>The time of day and its digits\<close>

lemma time_fields:
  fixes w :: int
  assumes "0 \<le> w" "w < 86400000"
  shows "MakeTime (w div 3600000) (w div 60000 mod 60) (w div 1000 mod 60) (w mod 1000) = w"
    and "0 \<le> w div 3600000" "w div 3600000 \<le> 23"
proof -
  define a where "a = w div 1000"
  define r where "r = w mod 1000"
  define b where "b = a div 60"
  define sec where "sec = a mod 60"
  define h where "h = b div 60"
  define mi where "mi = b mod 60"
  have m: "w div 60000 = b"
    unfolding b_def a_def by (simp add: zdiv_zmult2_eq[symmetric])
  have hh: "w div 3600000 = h"
    unfolding h_def b_def a_def by (simp add: zdiv_zmult2_eq[symmetric])
  have 1: "w = 1000 * a + r" unfolding a_def r_def by simp
  have 2: "a = 60 * b + sec" unfolding b_def sec_def by simp
  have 3: "b = 60 * h + mi" unfolding h_def mi_def by simp
  have "h * 3600000 + mi * 60000 + sec * 1000 + r = w"
    using 1 2 3 by linarith
  then show "MakeTime (w div 3600000) (w div 60000 mod 60) (w div 1000 mod 60) (w mod 1000) = w"
    unfolding MakeTime_def m hh a_def[symmetric] sec_def[symmetric] mi_def[symmetric] r_def[symmetric] .
  show "0 \<le> w div 3600000" using assms by simp
  have "w div 3600000 \<le> 86399999 div 3600000"
    by (rule zdiv_mono1) (use assms in simp_all)
  then show "w div 3600000 \<le> 23" by simp
qed

lemma digit_cases:
  fixes k :: int
  shows "0 \<le> k \<Longrightarrow> k < 10 \<Longrightarrow>
    k = 0 \<or> k = 1 \<or> k = 2 \<or> k = 3 \<or> k = 4 \<or> k = 5 \<or> k = 6 \<or> k = 7 \<or> k = 8 \<or> k = 9"
  by presburger

lemma digit_roundtrip: "digitVal (digitChar n) = Some (n mod 10)"
proof -
  have "0 \<le> n mod 10" "n mod 10 < 10" by simp_all
  from digit_cases[OF this] show ?thesis
    unfolding digitChar_def by (elim disjE) (simp_all add: digitVal_def)
qed

lemma parse_pad2:
  assumes "0 \<le> n" "n < 100"
  shows "parseDigits [digitChar (n div 10), digitChar n] = Some n"
proof -
  have "n div 10 < 10" "0 \<le> n div 10" using assms by simp_all
  then have "n div 10 mod 10 = n div 10" by simp
  then show ?thesis by (simp add: parseDigits_def digit_roundtrip)
qed

lemma parse_pad3:
  assumes "0 \<le> n" "n < 1000"
  shows "parseDigits [digitChar (n div 100), digitChar (n div 10), digitChar n] = Some n"
proof -
  define q1 where "q1 = n div 10"
  define r0 where "r0 = n mod 10"
  define q2 where "q2 = q1 div 10"
  define r1 where "r1 = q1 mod 10"
  have b: "n div 100 = q2" unfolding q2_def q1_def by (simp add: zdiv_zmult2_eq[symmetric])
  have "q2 < 10" "0 \<le> q2" unfolding b[symmetric] using assms by simp_all
  then have a: "q2 mod 10 = q2" by simp
  have 1: "n = 10 * q1 + r0" unfolding q1_def r0_def by simp
  have 2: "q1 = 10 * q2 + r1" unfolding q2_def r1_def by simp
  have "10 * (10 * q2 + r1) + r0 = n" using 1 2 by presburger
  then show ?thesis
    unfolding b by (simp add: parseDigits_def digit_roundtrip a q1_def[symmetric] r0_def[symmetric] r1_def[symmetric])
qed

lemma parse_pad4:
  assumes "0 \<le> n" "n < 10000"
  shows "parseDigits [digitChar (n div 1000), digitChar (n div 100), digitChar (n div 10), digitChar n] = Some n"
proof -
  define q1 where "q1 = n div 10"
  define r0 where "r0 = n mod 10"
  define q2 where "q2 = q1 div 10"
  define r1 where "r1 = q1 mod 10"
  define q3 where "q3 = q2 div 10"
  define r2 where "r2 = q2 mod 10"
  have b: "n div 100 = q2" unfolding q2_def q1_def by (simp add: zdiv_zmult2_eq[symmetric])
  have c: "n div 1000 = q3" unfolding q3_def q2_def q1_def by (simp add: zdiv_zmult2_eq[symmetric])
  have "q3 < 10" "0 \<le> q3" unfolding c[symmetric] using assms by simp_all
  then have a: "q3 mod 10 = q3" by simp
  have 1: "n = 10 * q1 + r0" unfolding q1_def r0_def by simp
  have 2: "q1 = 10 * q2 + r1" unfolding q2_def r1_def by simp
  have 3: "q2 = 10 * q3 + r2" unfolding q3_def r2_def by simp
  have "10 * (10 * (10 * q3 + r2) + r1) + r0 = n" using 1 2 3 by presburger
  then show ?thesis
    unfolding b c by (simp add: parseDigits_def digit_roundtrip a q1_def[symmetric] r0_def[symmetric]
        r1_def[symmetric] r2_def[symmetric])
qed


subsection \<open>Reading back what \<^verbatim>\<open>toISOString\<close> wrote\<close>

text \<open>
  For a time value in a year from 0 to 9999, the string \<^verbatim>\<open>toISOString\<close> writes is read
  back by \<^verbatim>\<open>new Date\<close> as the same time value, whatever the local time zone.
\<close>

lemma parseDatePart_pads:
  assumes "0 \<le> y" "y \<le> 9999" "1 \<le> m" "m \<le> 12" "1 \<le> d" "d \<le> 31"
  shows "parseDatePart (pad4 y @ ''-'' @ pad2 m @ ''-'' @ pad2 d) = Some (MakeDay y (m - 1) d)"
proof -
  have y: "parseDigits [digitChar (y div 1000), digitChar (y div 100), digitChar (y div 10), digitChar y] = Some y"
    by (rule parse_pad4) (use assms in simp_all)
  have m: "parseDigits [digitChar (m div 10), digitChar m] = Some m"
    by (rule parse_pad2) (use assms in simp_all)
  have d: "parseDigits [digitChar (d div 10), digitChar d] = Some d"
    by (rule parse_pad2) (use assms in simp_all)
  show ?thesis
    using assms by (simp add: parseDatePart_def pad4_def pad2_def y m d)
qed

lemma parseTimePart_pads:
  assumes "0 \<le> w" "w < 86400000"
  shows "parseTimePart (pad2 (w div 3600000) @ '':'' @ pad2 (w div 60000 mod 60) @ '':''
           @ pad2 (w div 1000 mod 60) @ ''.'' @ pad3 (w mod 1000)) = Some w"
proof -
  define h where "h = w div 3600000"
  define mi where "mi = w div 60000 mod 60"
  define sec where "sec = w div 1000 mod 60"
  define ms where "ms = w mod 1000"
  have hb: "0 \<le> h" "h \<le> 23" unfolding h_def using time_fields(2,3)[OF assms] by simp_all
  have mib: "0 \<le> mi" "mi \<le> 59" unfolding mi_def by simp_all
  have secb: "0 \<le> sec" "sec \<le> 59" unfolding sec_def by simp_all
  have msb: "0 \<le> ms" "ms < 1000" unfolding ms_def by simp_all
  have ph: "parseDigits [digitChar (h div 10), digitChar h] = Some h"
    by (rule parse_pad2) (use hb in simp_all)
  have pmi: "parseDigits [digitChar (mi div 10), digitChar mi] = Some mi"
    by (rule parse_pad2) (use mib in simp_all)
  have psec: "parseDigits [digitChar (sec div 10), digitChar sec] = Some sec"
    by (rule parse_pad2) (use secb in simp_all)
  have pms: "parseDigits [digitChar (ms div 100), digitChar (ms div 10), digitChar ms] = Some ms"
    by (rule parse_pad3) (use msb in simp_all)
  have mt: "MakeTime h mi sec ms = w"
    unfolding h_def mi_def sec_def ms_def by (rule time_fields(1)[OF assms])
  have "parseTimePart (pad2 h @ '':'' @ pad2 mi @ '':'' @ pad2 sec @ ''.'' @ pad3 ms) = Some w"
    using hb mib secb
    by (simp add: parseTimePart_def pad2_def pad3_def ph pmi psec pms checkTime_def mt)
  then show ?thesis
    unfolding h_def mi_def sec_def ms_def .
qed

lemma toISOString_newDate:
  assumes "- 62167219200000 \<le> t" "t < 253402300800000"
  shows "\<exists>iso. toISOString (Some t) = Some iso \<and> newDate tza iso = Some t"
proof -
  define y where "y = YearFromTime t"
  define m where "m = MonthFromTime t + 1"
  define d where "d = DateFromTime t"
  define w where "w = TimeWithinDay t"
  define ds where "ds = pad4 y @ ''-'' @ pad2 m @ ''-'' @ pad2 d"
  define ts where "ts = pad2 (w div 3600000) @ '':'' @ pad2 (w div 60000 mod 60) @ '':''
           @ pad2 (w div 1000 mod 60) @ ''.'' @ pad3 (w mod 1000)"
  have yb: "0 \<le> y" "y \<le> 9999"
    unfolding y_def using YearFromTime_four_digits[OF assms] by simp_all
  have mb: "1 \<le> m" "m \<le> 12"
    unfolding m_def using MonthFromTime_bounds[of t] by simp_all
  have db: "1 \<le> d" "d \<le> 31"
    unfolding d_def using DateFromTime_bounds[of t] by simp_all
  have wb: "0 \<le> w" "w < 86400000"
    unfolding w_def TimeWithinDay_def msPerDay_def by simp_all
  have iso: "toISOString (Some t) = Some (ds @ ''T'' @ ts @ ''Z'')"
    using yb by (simp add: toISOString_def yearString_def Let_def ds_def ts_def y_def m_def d_def w_def)
  have lds: "length ds = 10" by (simp add: ds_def pad4_def pad2_def)
  have lts: "length ts = 12" by (simp add: ts_def pad2_def pad3_def)
  have dp: "parseDatePart ds = Some (Day t)"
    unfolding ds_def parseDatePart_pads[OF yb mb db]
    unfolding y_def m_def d_def by (simp add: MakeDay_inverse)
  have tp: "parseTimePart ts = Some w"
    unfolding ts_def by (rule parseTimePart_pads[OF wb])
  have "MakeDate (Day t) w = t"
    by (simp add: MakeDate_def Day_def w_def TimeWithinDay_def)
  moreover have "TimeClip t = Some t"
    using assms by (simp add: TimeClip_def)
  ultimately have "newDate tza (ds @ ''T'' @ ts @ ''Z'') = Some t"
    using lds lts dp tp
    by (simp add: newDate_def Date_parse_def nth_append butlast_append)
  with iso show ?thesis by blast
qed

section \<open>The due-detection evaluation\<close>

subsection \<open>The loop of \<^verbatim>\<open>checkReminders\<close> as a map and a filter\<close>

text \<open>
  An empty string is no date, so the truthiness test on \<^verbatim>\<open>snoozeUntil\<close> changes
  nothing: the condition of the loop is the specification's "newly due".
\<close>

lemma newDate_Nil: "newDate tza [] = None"
  by (simp add: newDate_def Date_parse_def)

lemma fires_iff_newlyDue:
  "(isDue tza now r \<and> \<not> notified r \<and> \<not> isSnoozed tza now r) = newlyDue_spec tza now r"
  by (auto simp: isDue_def isSnoozed_def newlyDue_spec_def snoozed_spec_def dueInstant_def
      date_le_def date_lt_def newDate_Nil split: option.splits)

lemma checkReminders_map_eq:
  "checkReminders_map tza now rs =
     (map (\<lambda>r. if newlyDue_spec tza now r then r\<lparr>notified := True\<rparr> else r) rs,
      filter (newlyDue_spec tza now) rs)"
  by (induction rs) (simp_all add: fires_iff_newlyDue)

lemma newlyDue_spec_notified: "\<not> newlyDue_spec tza now (r\<lparr>notified := True\<rparr>)"
  by (simp add: newlyDue_spec_def)

lemma second_pass_empty:
  "filter (newlyDue_spec tza now)
     (map (\<lambda>r. if newlyDue_spec tza now r then r\<lparr>notified := True\<rparr> else r) rs) = []"
  by (induction rs) (simp_all add: newlyDue_spec_notified)

text \<open>
  Notifying never touches the reminders, so after \<^verbatim>\<open>checkReminders\<close> the store holds
  the updated list, also when a notification throws half-way and when nothing is due.
\<close>

lemma notifyDue_reminders: "reminders (fst (notifyDue e r s)) = reminders s"
  by (simp add: notifyDue_def Let_def split: option.splits)

lemma forEachDue_reminders: "reminders (fst (forEachDue e due s)) = reminders s"
proof (induction due arbitrary: s)
  case Nil
  show ?case by simp
next
  case (Cons r due)
  obtain s1 err where n: "notifyDue e r s = (s1, err)" by (cases "notifyDue e r s")
  then have "reminders s1 = reminders s" using notifyDue_reminders[of e r s] by simp
  with n Cons.IH[of s1] show ?case by (cases err) simp_all
qed

lemma checkReminders_reminders:
  "reminders (fst (checkReminders e now s)) = fst (checkReminders_map (localTZA e) now (reminders s))"
proof (cases "filter (newlyDue_spec (localTZA e) now) (reminders s) = []")
  case True
  then have "\<forall>r\<in>set (reminders s). \<not> newlyDue_spec (localTZA e) now r"
    by (simp add: filter_empty_conv)
  then have "map (\<lambda>r. if newlyDue_spec (localTZA e) now r then r\<lparr>notified := True\<rparr> else r) (reminders s)
      = reminders s"
    by (simp add: map_idI)
  with True show ?thesis by (simp add: checkReminders_def checkReminders_map_eq)
next
  case False
  then show ?thesis
    by (simp add: checkReminders_def checkReminders_map_eq forEachDue_reminders)
qed

text \<open>
  Claim C1. For every reminder list and every instant \<open>now\<close>, \<^verbatim>\<open>checkReminders\<close> puts
  a reminder in the fired list if and only if it is newly due: its due-instant is at most
  \<open>now\<close>, it is not notified, and it is not snoozed, that is, its \<open>snoozeUntil\<close> is
  absent or at most \<open>now\<close> (a \<open>snoozeUntil\<close> that is no date does not snooze). The fired
  list is the newly due reminders in their order; the updated list is the input with
  \<open>notified\<close> set on exactly those and every other reminder, and every other field, as
  it was; it is what the store holds afterwards. A reminder whose \<open>snoozeUntil\<close> lies
  after \<open>now\<close> is never fired, also when its due-instant has passed.
\<close>

theorem C1_due_detection:
  assumes "checkReminders_map (localTZA e) now (reminders s) = (updated, fired)"
  shows "(\<forall>r. r \<in> set fired \<longleftrightarrow> r \<in> set (reminders s) \<and> newlyDue_spec (localTZA e) now r)
    \<and> (\<forall>r. snoozeUntil r = None \<longrightarrow>
          (r \<in> set fired \<longleftrightarrow> r \<in> set (reminders s)
             \<and> (\<exists>d. dueInstant (localTZA e) r = Some d \<and> d \<le> now) \<and> notified r = False))
    \<and> (\<forall>r u v. snoozeUntil r = Some u \<and> newDate (localTZA e) u = Some v \<longrightarrow>
          (r \<in> set fired \<longleftrightarrow> r \<in> set (reminders s)
             \<and> (\<exists>d. dueInstant (localTZA e) r = Some d \<and> d \<le> now) \<and> notified r = False
             \<and> v \<le> now))
    \<and> fired = filter (newlyDue_spec (localTZA e) now) (reminders s)
    \<and> updated = map (\<lambda>r. if newlyDue_spec (localTZA e) now r then r\<lparr>notified := True\<rparr> else r)
                  (reminders s)
    \<and> (\<forall>r u v. snoozeUntil r = Some u \<and> newDate (localTZA e) u = Some v \<and> now < v \<longrightarrow> r \<notin> set fired)
    \<and> reminders (fst (checkReminders e now s)) = updated"
proof -
  from assms have f: "fired = filter (newlyDue_spec (localTZA e) now) (reminders s)"
    and u: "updated = map (\<lambda>r. if newlyDue_spec (localTZA e) now r then r\<lparr>notified := True\<rparr> else r)
                        (reminders s)"
    by (simp_all add: checkReminders_map_eq)
  have due: "(case dueInstant (localTZA e) r of None \<Rightarrow> False | Some d \<Rightarrow> d \<le> now)
      = (\<exists>d. dueInstant (localTZA e) r = Some d \<and> d \<le> now)" for r
    by (cases "dueInstant (localTZA e) r") simp_all
  have absent: "(r \<in> set fired) = (r \<in> set (reminders s)
      \<and> (\<exists>d. dueInstant (localTZA e) r = Some d \<and> d \<le> now) \<and> notified r = False)"
    if "snoozeUntil r = None" for r
    using that by (simp add: f newlyDue_spec_def snoozed_spec_def due)
  have elapsed: "(r \<in> set fired) = (r \<in> set (reminders s)
      \<and> (\<exists>d. dueInstant (localTZA e) r = Some d \<and> d \<le> now) \<and> notified r = False \<and> v \<le> now)"
    if "snoozeUntil r = Some u" "newDate (localTZA e) u = Some v" for r u v
    using that by (simp add: f newlyDue_spec_def snoozed_spec_def due not_less)
  have sn: "r \<notin> set fired"
    if "snoozeUntil r = Some u" "newDate (localTZA e) u = Some v" "now < v" for r u v
    using that by (simp add: f newlyDue_spec_def snoozed_spec_def)
  have st: "reminders (fst (checkReminders e now s)) = updated"
    using assms by (simp add: checkReminders_reminders)
  have mem: "(r \<in> set fired) = (r \<in> set (reminders s) \<and> newlyDue_spec (localTZA e) now r)" for r
    by (simp add: f)
  from mem absent elapsed f u sn st show ?thesis by blast
qed

text \<open>
  At 09:05 the reminder due at 09:00 fires and is marked; the one snoozed until 09:10 is
  passed through.
\<close>

theorem C1_due_detection_witness:
  "checkReminders_map (localTZA browser) 1709283900000 (reminders (startState [rent, rentSnoozed]))
     = ([rent\<lparr>notified := True\<rparr>, rentSnoozed], [rent])
   \<and> [rent] = filter (newlyDue_spec (localTZA browser) 1709283900000)
                (reminders (startState [rent, rentSnoozed]))
   \<and> reminders (fst (checkReminders browser 1709283900000 (startState [rent, rentSnoozed])))
     = [rent\<lparr>notified := True\<rparr>, rentSnoozed]"
proof -
  have h: "checkReminders_map (localTZA browser) 1709283900000 (reminders (startState [rent, rentSnoozed]))
     = ([rent\<lparr>notified := True\<rparr>, rentSnoozed], [rent])"
    by code_simp
  from C1_due_detection[OF h] h show ?thesis by blast
qed

subsection \<open>A second evaluation at the same instant\<close>

lemma checkReminders_again:
  "checkReminders e t (fst (checkReminders e t s)) = (fst (checkReminders e t s), None)"
proof -
  define s' where "s' = fst (checkReminders e t s)"
  obtain u' d' where m: "checkReminders_map (localTZA e) t (reminders s') = (u', d')"
    by (cases "checkReminders_map (localTZA e) t (reminders s')")
  have "snd (checkReminders_map (localTZA e) t (reminders s')) = []"
    unfolding s'_def by (simp add: checkReminders_reminders checkReminders_map_eq second_pass_empty)
  with m have "d' = []" by simp
  with m have "checkReminders e t s' = (s', None)"
    by (simp add: checkReminders_def)
  then show ?thesis unfolding s'_def .
qed

text \<open>
  Claim C2. The evaluation is idempotent: for every reminder list \<open>R\<close> and every instant
  \<open>t\<close>, evaluating the updated list of a first evaluation again at \<open>t\<close> fires nothing.
  For the whole of \<^verbatim>\<open>checkReminders\<close>, a second call at the same instant leaves the
  state as it is and emits nothing.
\<close>

theorem C2_idempotent:
  "snd (checkReminders_map tza t (fst (checkReminders_map tza t R))) = []
   \<and> checkReminders e t (fst (checkReminders e t s)) = (fst (checkReminders e t s), None)"
  by (simp add: checkReminders_map_eq second_pass_empty checkReminders_again)

text \<open>The reminder that fired at 09:05 does not fire in a second evaluation at 09:05.\<close>

theorem C2_idempotent_witness:
  "snd (checkReminders_map 0 1709283900000
          (fst (checkReminders_map 0 1709283900000 [rent, rentSnoozed]))) = []
   \<and> snd (checkReminders_map 0 1709283900000 [rent, rentSnoozed]) = [rent]"
proof -
  have "snd (checkReminders_map 0 1709283900000 [rent, rentSnoozed]) = [rent]"
    by code_simp
  with C2_idempotent[of 0 1709283900000 "[rent, rentSnoozed]" browser "startState []"]
  show ?thesis by simp
qed

subsection \<open>What the evaluation leaves alone\<close>

text \<open>
  Claim C10. For every reminder list and every instant, the updated list has the same
  reminders by id, in the same order and of the same length as the input: position by
  position, a reminder is either unchanged or was not notified and now has \<open>notified\<close>
  set, with every other field as it was. The same holds for the store after
  \<^verbatim>\<open>checkReminders\<close>.
\<close>

theorem C10_same_reminders:
  "map id_r (fst (checkReminders_map tza now rs)) = map id_r rs
   \<and> length (fst (checkReminders_map tza now rs)) = length rs
   \<and> list_all2 (\<lambda>r u. u = r \<or> (notified r = False \<and> u = r\<lparr>notified := True\<rparr>))
        rs (fst (checkReminders_map tza now rs))
   \<and> map id_r (reminders (fst (checkReminders e now s))) = map id_r (reminders s)"
proof -
  let ?f = "\<lambda>r. if newlyDue_spec tza now r then r\<lparr>notified := True\<rparr> else r"
  have ids: "map id_r (map (\<lambda>r. if newlyDue_spec z now r then r\<lparr>notified := True\<rparr> else r) xs) = map id_r xs"
    for z xs
    by (induction xs) simp_all
  have rel: "list_all2 (\<lambda>r u. u = r \<or> (notified r = False \<and> u = r\<lparr>notified := True\<rparr>)) rs (map ?f rs)"
    by (induction rs) (simp_all add: newlyDue_spec_def)
  show ?thesis
    using rel by (simp add: checkReminders_map_eq checkReminders_reminders ids)
qed

text \<open>At 09:05 the two sample reminders keep their ids and their places.\<close>

theorem C10_same_reminders_witness:
  "map id_r (fst (checkReminders_map 0 1709283900000 [rent, rentSnoozed])) = map id_r [rent, rentSnoozed]
   \<and> fst (checkReminders_map 0 1709283900000 [rent, rentSnoozed]) = [rent\<lparr>notified := True\<rparr>, rentSnoozed]"
proof -
  have "fst (checkReminders_map 0 1709283900000 [rent, rentSnoozed]) = [rent\<lparr>notified := True\<rparr>, rentSnoozed]"
    by code_simp
  with C10_same_reminders[of 0 1709283900000 "[rent, rentSnoozed]" browser "startState []"]
  show ?thesis by simp
qed

section \<open>A sequence of evaluations\<close>



lemma length_runTicks: "length (runTicks tza ts rs) = length ts"
  by (induction ts arbitrary: rs) (simp_all split: prod.splits)





section \<open>The snooze action\<close>

text \<open>
  When \<^verbatim>\<open>toISOString\<close> does not throw, which is when ten minutes from now is still a
  valid time value, the snooze stamps every reminder with that id and drops its toast.
\<close>

lemma handleSnoozeReminder_valid:
  assumes "toISOString (TimeClip (now + 600000)) = Some stamp"
  shows "handleSnoozeReminder now rid s =
     s\<lparr>reminders := map (\<lambda>r. if id_r r = rid then r\<lparr>snoozeUntil := Some stamp, notified := False\<rparr> else r)
                        (reminders s),
       activeNotifications := filter (\<lambda>n. id_r n \<noteq> rid) (activeNotifications s)\<rparr>"
  using assms by (simp add: handleSnoozeReminder_def)

lemma toISOString_Some: "\<exists>stamp. toISOString (Some t) = Some stamp"
  by (simp add: toISOString_def Let_def)

text \<open>
  Claim C4. For every reminder list, every id and every instant \<open>now\<close> (with
  \<open>now + 10 minutes\<close> still a time value), the snooze action sets on the reminder with
  that id \<open>snoozeUntil\<close> to the ISO string of \<open>now + 10 minutes\<close> and \<open>notified\<close> to
  false; it leaves the other fields of that reminder and all other reminders as they
  were, and it removes the entry with that id from the ActiveNotification set. In a year
  from 0 to 9999, which is where a clock stands, the string reads back as the instant
  \<open>now + 10 minutes\<close> in every time zone.
\<close>

theorem C4_snooze:
  assumes "\<bar>now + 600000\<bar> \<le> 8640000000000000"
  shows "\<exists>stamp. toISOString (Some (now + 600000)) = Some stamp
    \<and> reminders (handleSnoozeReminder now rid s)
        = map (\<lambda>r. if id_r r = rid then r\<lparr>snoozeUntil := Some stamp, notified := False\<rparr> else r)
            (reminders s)
    \<and> activeNotifications (handleSnoozeReminder now rid s)
        = filter (\<lambda>n. id_r n \<noteq> rid) (activeNotifications s)
    \<and> (\<forall>n\<in>set (activeNotifications (handleSnoozeReminder now rid s)). id_r n \<noteq> rid)
    \<and> effects (handleSnoozeReminder now rid s) = effects s
    \<and> (- 62167219200000 \<le> now + 600000 \<and> now + 600000 < 253402300800000
         \<longrightarrow> newDate tza stamp = Some (now + 600000))"
proof -
  obtain stamp where stamp: "toISOString (Some (now + 600000)) = Some stamp"
    using toISOString_Some by blast
  have "TimeClip (now + 600000) = Some (now + 600000)"
    using assms by (simp add: TimeClip_def)
  with stamp have "toISOString (TimeClip (now + 600000)) = Some stamp" by simp
  note snoozed = handleSnoozeReminder_valid[OF this, of rid s]
  have rb: "newDate tza stamp = Some (now + 600000)"
    if "- 62167219200000 \<le> now + 600000" "now + 600000 < 253402300800000"
    using toISOString_newDate[OF that, of tza] stamp by auto
  from stamp snoozed rb show ?thesis
    by (intro exI[of _ stamp]) simp
qed

text \<open>
  Snoozing the notified rent reminder at 09:05: it is stamped 09:15 and armed again, the
  other reminder is untouched, and the toast is gone.
\<close>

theorem C4_snooze_witness:
  "newDate 0 ''2024-03-01T09:15:00.000Z'' = Some (1709283900000 + 600000)
   \<and> reminders (handleSnoozeReminder 1709283900000 (id_r rent)
        \<lparr> reminders = [rentPaid, rentSnoozed], activeNotifications = [rent], effects = [] \<rparr>)
      = [rent\<lparr>snoozeUntil := Some ''2024-03-01T09:15:00.000Z''\<rparr>, rentSnoozed]
   \<and> activeNotifications (handleSnoozeReminder 1709283900000 (id_r rent)
        \<lparr> reminders = [rentPaid, rentSnoozed], activeNotifications = [rent], effects = [] \<rparr>) = []"
proof -
  have a: "\<bar>(1709283900000::int) + 600000\<bar> \<le> 8640000000000000" by simp
  have r: "reminders (handleSnoozeReminder 1709283900000 (id_r rent)
        \<lparr> reminders = [rentPaid, rentSnoozed], activeNotifications = [rent], effects = [] \<rparr>)
      = [rent\<lparr>snoozeUntil := Some ''2024-03-01T09:15:00.000Z''\<rparr>, rentSnoozed]"
    by code_simp
  have p: "newDate 0 ''2024-03-01T09:15:00.000Z'' = Some (1709283900000 + 600000)"
    by code_simp
  from C4_snooze[OF a, of "id_r rent"
      "\<lparr> reminders = [rentPaid, rentSnoozed], activeNotifications = [rent], effects = [] \<rparr>" 0]
  have "activeNotifications (handleSnoozeReminder 1709283900000 (id_r rent)
        \<lparr> reminders = [rentPaid, rentSnoozed], activeNotifications = [rent], effects = [] \<rparr>) = []"
    by auto
  with r p show ?thesis by simp
qed

text \<open>
  The scenario of the specification: a due reminder snoozed at 09:00 does not fire at
  09:05 and fires at 09:11.
\<close>

lemma snooze_scenario:
  "runTicks 0 [1709283900000, 1709284260000]
     (reminders (handleSnoozeReminder 1709283600000 (id_r rent)
        \<lparr> reminders = [rentPaid], activeNotifications = [rent], effects = [] \<rparr>))
   = [[], [rent\<lparr>snoozeUntil := Some ''2024-03-01T09:10:00.000Z''\<rparr>]]"
  by code_simp

section \<open>Editing a reminder\<close>

text \<open>
  \<^verbatim>\<open>handleSaveReminder\<close> puts the saved reminder in the place of every reminder with
  its id, or at the end when there is none: afterwards the saved reminder is the only one
  with its id, and the ids of the store are as before, or one more.
\<close>

lemma handleSaveReminder_store:
  "saved \<in> set (reminders (handleSaveReminder saved s))
    \<and> (\<forall>r\<in>set (reminders (handleSaveReminder saved s)). id_r r = id_r saved \<longrightarrow> r = saved)
    \<and> map id_r (reminders (handleSaveReminder saved s))
       = (if id_r saved \<in> set (map id_r (reminders s)) then map id_r (reminders s)
          else map id_r (reminders s) @ [id_r saved])"
proof (cases "find (\<lambda>r. id_r r = id_r saved) (reminders s)")
  case None
  then have no: "\<forall>r\<in>set (reminders s). id_r r \<noteq> id_r saved"
    by (simp add: find_None_iff)
  then have notin: "id_r saved \<notin> set (map id_r (reminders s))" by auto
  have new: "reminders (handleSaveReminder saved s) = reminders s @ [saved]"
    using None by (simp add: handleSaveReminder_def)
  show ?thesis unfolding new using no notin by auto
next
  case (Some existing)
  let ?f = "\<lambda>r. if id_r r = id_r saved then saved else r"
  have "find (\<lambda>r. id_r r = id_r saved) (reminders s) \<noteq> None" using Some by simp
  then obtain x where x: "x \<in> set (reminders s)" "id_r x = id_r saved"
    unfolding find_None_iff by blast
  have "id_r x \<in> set (map id_r (reminders s))" using x(1) by simp
  then have yes: "id_r saved \<in> set (map id_r (reminders s))" unfolding x(2) .
  have new: "reminders (handleSaveReminder saved s) = map ?f (reminders s)"
    using Some by (simp add: handleSaveReminder_def)
  have ids: "map id_r (map ?f xs) = map id_r xs" for xs
    by (induction xs) simp_all
  have "?f x = saved" using x by simp
  moreover have "?f x \<in> set (map ?f (reminders s))" using x(1) by simp
  ultimately have 1: "saved \<in> set (map ?f (reminders s))" by simp
  have 2: "\<forall>r\<in>set (map ?f (reminders s)). id_r r = id_r saved \<longrightarrow> r = saved"
    by auto
  show ?thesis unfolding new using 1 2 yes by (simp add: ids)
qed






text \<open>
  A snooze while the form is open is overwritten in the same way. The form is opened on
  the notified rent reminder, whose toast is then snoozed at 09:05 until 09:15; the
  submission at 09:06, with the date and the time untouched, saves the reminder notified
  and without a snooze, and it fires neither at 09:15 nor at 10:15.
\<close>

lemma stale_edit_loses_snooze:
  "reminders (step \<lparr> reminders = [rentPaid], activeNotifications = [rent], effects = [] \<rparr>
      (Snooze 1709283900000 (id_r rent)))
     = [rent\<lparr>snoozeUntil := Some ''2024-03-01T09:15:00.000Z''\<rparr>]
   \<and> map (\<lambda>r. (notified r, snoozeUntil r))
       (reminders (run \<lparr> reminders = [rentPaid], activeNotifications = [rent], effects = [] \<rparr>
          [Snooze 1709283900000 (id_r rent),
           Submit browser 1709283960000 rentUnchanged (Some rentPaid)]))
     = [(True, None)]
   \<and> runTicks 0 [1709284500000, 1709288100000]
       (reminders (run \<lparr> reminders = [rentPaid], activeNotifications = [rent], effects = [] \<rparr>
          [Snooze 1709283900000 (id_r rent),
           Submit browser 1709283960000 rentUnchanged (Some rentPaid)]))
     = [[], []]"
  by code_simp

section \<open>Notifying a fired reminder\<close>

text \<open>
  The three ways \<^verbatim>\<open>dueReminders.forEach\<close> can go for one reminder: a toast in the
  foreground; in a background tab an OS notification if the permission is granted and
  nothing otherwise; and a \<^verbatim>\<open>ReferenceError\<close> in a background tab of a browser
  without \<^verbatim>\<open>Notification\<close>. The sound comes first in all three.
\<close>

lemma playNotificationSound_no_OSNotification:
  "filter isOSNotification (playNotificationSound e sound) = []"
  by (cases sound) (simp_all add: playNotificationSound_def)

lemma notifyDue_foreground:
  assumes "\<not> documentHidden e"
  shows "notifyDue e r s =
     (s\<lparr>effects := effects s @ playNotificationSound e (notificationSound r),
        activeNotifications := filter (\<lambda>n. id_r n \<noteq> id_r r) (activeNotifications s) @ [r]\<rparr>, None)"
  using assms by (simp add: notifyDue_def Let_def)

lemma notifyDue_background:
  assumes "documentHidden e" "notificationPermission e = Some p"
  shows "notifyDue e r s =
     (s\<lparr>effects := effects s @ playNotificationSound e (notificationSound r)
          @ (if p = granted
             then [OSNotification ''Bill Reminder'' (notification_body e r)
                     (notificationSound r \<noteq> Sound_default)]
             else [])\<rparr>, None)"
  using assms by (simp add: notifyDue_def Let_def)

lemma notifyDue_no_api:
  assumes "documentHidden e" "notificationPermission e = None"
  shows "notifyDue e r s =
     (s\<lparr>effects := effects s @ playNotificationSound e (notificationSound r)\<rparr>, Some ReferenceError)"
  using assms by (simp add: notifyDue_def Let_def)

text \<open>What notifying one reminder adds to the log when nothing is thrown.\<close>

lemma emitted_notifyDue:
  assumes "documentHidden e \<longrightarrow> notificationPermission e \<noteq> None"
  shows "emitted s (fst (notifyDue e r s)) =
     playNotificationSound e (notificationSound r)
     @ (if documentHidden e \<and> notificationPermission e = Some granted
        then [OSNotification ''Bill Reminder'' (notification_body e r)
                (notificationSound r \<noteq> Sound_default)]
        else [])"
proof (cases "documentHidden e")
  case False
  then show ?thesis by (simp add: notifyDue_foreground emitted_def)
next
  case True
  with assms obtain p where p: "notificationPermission e = Some p" by auto
  show ?thesis
    using True p by (simp add: notifyDue_background[OF True p] emitted_def)
qed

text \<open>
  When nothing can be thrown, the loop notifies every due reminder, in order.
\<close>

lemma forEachDue_effects:
  assumes "documentHidden e \<longrightarrow> notificationPermission e \<noteq> None"
  shows "forEachDue e due s =
     (fst (forEachDue e due s), None)
   \<and> effects (fst (forEachDue e due s)) = effects s @ concat (map (\<lambda>r.
       playNotificationSound e (notificationSound r)
       @ (if documentHidden e \<and> notificationPermission e = Some granted
          then [OSNotification ''Bill Reminder'' (notification_body e r)
                  (notificationSound r \<noteq> Sound_default)]
          else [])) due)"
proof (induction due arbitrary: s)
  case Nil
  show ?case by simp
next
  case (Cons r due)
  show ?case
  proof (cases "documentHidden e")
    case False
    show ?thesis
      using Cons.IH False by (simp add: notifyDue_foreground)
  next
    case True
    with assms obtain p where p: "notificationPermission e = Some p" by auto
    show ?thesis
      using Cons.IH True p by (simp add: notifyDue_background[OF True p])
  qed
qed

text \<open>
  In a background tab of a browser without \<^verbatim>\<open>Notification\<close> the loop stops at the
  first due reminder. At 09:15 both sample reminders are due, with a beep each: both are
  marked notified, one tone is played, and the error is thrown.
\<close>

lemma checkReminders_without_Notification:
  "checkReminders (backgroundTab\<lparr>notificationPermission := None\<rparr>) 1709284500000
     (startState [rent\<lparr>notificationSound := Sound_beep\<rparr>,
                  rentSnoozed\<lparr>notificationSound := Sound_beep\<rparr>])
   = (\<lparr> reminders = [rent\<lparr>notificationSound := Sound_beep, notified := True\<rparr>,
                        rentSnoozed\<lparr>notificationSound := Sound_beep, notified := True\<rparr>],
         activeNotifications = [],
         effects = [PlayTone 880 0.2 0] \<rparr>,
      Some ReferenceError)"
  by code_simp

text \<open>
  Claim C6, amended. \<^verbatim>\<open>playNotificationSound\<close> triggers no cue for \<open>none\<close> and none
  for \<open>default\<close>; with an audio context it plays one tone for \<open>beep\<close> (880 Hz, 0.2 s)
  and two for \<open>chime\<close> (1046.5 Hz, then 1396.9 Hz after 150 ms), and for \<open>vibrate\<close> it
  invokes the device vibration where there is one and does nothing otherwise; without an
  audio context it triggers nothing at all. When the tab is visible or the browser has
  \<^verbatim>\<open>Notification\<close>, \<^verbatim>\<open>checkReminders\<close> emits for every fired reminder, in order, the
  cue of its \<open>notificationSound\<close>, followed in a background tab with the permission
  granted by the OS notification, which is silent unless the sound is \<open>default\<close>: that
  notification is the only cue the default sound ever gets.
\<close>

theorem C6_audio_cue_amended:
  "playNotificationSound e Sound_none = []
   \<and> playNotificationSound e Sound_default = []
   \<and> (hasAudioContext e \<longrightarrow>
        playNotificationSound e Sound_beep = [PlayTone 880 0.2 0]
      \<and> playNotificationSound e Sound_chime = [PlayTone 1046.5 0.15 0, PlayTone 1396.9 0.15 150]
      \<and> playNotificationSound e Sound_vibrate
          = (if hasVibrate e then [VibrateDevice [200, 100, 200]] else []))
   \<and> (\<not> hasAudioContext e \<longrightarrow> playNotificationSound e sound = [])
   \<and> ((documentHidden e \<longrightarrow> notificationPermission e \<noteq> None) \<longrightarrow>
        emitted s (fst (checkReminders e now s))
          = concat (map (\<lambda>r. playNotificationSound e (notificationSound r)
               @ (if documentHidden e \<and> notificationPermission e = Some granted
                  then [OSNotification ''Bill Reminder'' (notification_body e r)
                          (notificationSound r \<noteq> Sound_default)]
                  else []))
              (filter (newlyDue_spec (localTZA e) now) (reminders s))))"
proof -
  have tick: "emitted s (fst (checkReminders e now s))
          = concat (map (\<lambda>r. playNotificationSound e (notificationSound r)
               @ (if documentHidden e \<and> notificationPermission e = Some granted
                  then [OSNotification ''Bill Reminder'' (notification_body e r)
                          (notificationSound r \<noteq> Sound_default)]
                  else []))
              (filter (newlyDue_spec (localTZA e) now) (reminders s)))"
    if ok: "documentHidden e \<longrightarrow> notificationPermission e \<noteq> None"
  proof (cases "filter (newlyDue_spec (localTZA e) now) (reminders s) = []")
    case True
    then show ?thesis by (simp add: checkReminders_def checkReminders_map_eq emitted_def)
  next
    case False
    then show ?thesis
      using forEachDue_effects[OF ok]
      by (simp add: checkReminders_def checkReminders_map_eq emitted_def)
  qed
  show ?thesis
    using tick by (simp add: playNotificationSound_def)
qed

text \<open>
  A beep in the sample browser, and the rent reminder with the chime firing at 09:05 in a
  background tab: two tones, then a silent OS notification.
\<close>

theorem C6_audio_cue_amended_witness:
  "playNotificationSound browser Sound_beep = [PlayTone 880 0.2 0]
   \<and> emitted (startState [rent\<lparr>notificationSound := Sound_chime\<rparr>])
        (fst (checkReminders backgroundTab 1709283900000 (startState [rent\<lparr>notificationSound := Sound_chime\<rparr>])))
      = [PlayTone 1046.5 0.15 0, PlayTone 1396.9 0.15 150,
         OSNotification ''Bill Reminder'' ''Rent for $1200.00 is due!'' True]"
proof -
  have a: "hasAudioContext browser" by (simp add: browser_def)
  have b: "documentHidden backgroundTab \<longrightarrow> notificationPermission backgroundTab \<noteq> None"
    by (simp add: backgroundTab_def browser_def)
  have c: "filter (newlyDue_spec (localTZA backgroundTab) 1709283900000)
             (reminders (startState [rent\<lparr>notificationSound := Sound_chime\<rparr>]))
           = [rent\<lparr>notificationSound := Sound_chime\<rparr>]"
    by code_simp
  have d: "playNotificationSound backgroundTab Sound_chime = [PlayTone 1046.5 0.15 0, PlayTone 1396.9 0.15 150]"
    by (simp add: playNotificationSound_def backgroundTab_def browser_def)
  have e: "notification_body backgroundTab (rent\<lparr>notificationSound := Sound_chime\<rparr>)
      = ''Rent for $1200.00 is due!''"
    by code_simp
  note th = C6_audio_cue_amended[where e = browser and s = "startState []" and now = 0
      and sound = Sound_none]
    C6_audio_cue_amended[where e = backgroundTab
      and s = "startState [rent\<lparr>notificationSound := Sound_chime\<rparr>]"
      and now = 1709283900000 and sound = Sound_none]
  from th(1) a have 1: "playNotificationSound browser Sound_beep = [PlayTone 880 0.2 0]" by blast
  from th(2) b have "emitted (startState [rent\<lparr>notificationSound := Sound_chime\<rparr>])
        (fst (checkReminders backgroundTab 1709283900000 (startState [rent\<lparr>notificationSound := Sound_chime\<rparr>])))
      = concat (map (\<lambda>r. playNotificationSound backgroundTab (notificationSound r)
               @ (if documentHidden backgroundTab \<and> notificationPermission backgroundTab = Some granted
                  then [OSNotification ''Bill Reminder'' (notification_body backgroundTab r)
                          (notificationSound r \<noteq> Sound_default)]
                  else []))
              (filter (newlyDue_spec (localTZA backgroundTab) 1709283900000)
                 (reminders (startState [rent\<lparr>notificationSound := Sound_chime\<rparr>]))))"
    by blast
  then have 2: "emitted (startState [rent\<lparr>notificationSound := Sound_chime\<rparr>])
        (fst (checkReminders backgroundTab 1709283900000 (startState [rent\<lparr>notificationSound := Sound_chime\<rparr>])))
      = [PlayTone 1046.5 0.15 0, PlayTone 1396.9 0.15 150,
         OSNotification ''Bill Reminder'' ''Rent for $1200.00 is due!'' True]"
    unfolding c by (simp add: d e) (simp add: backgroundTab_def browser_def)
  from 1 2 show ?thesis by simp
qed

text \<open>
  The claim promises a cue for every fired reminder whose sound is not \<open>none\<close>, the
  default sound included. The rent reminder has the default sound; it fires at 09:05 in
  the foreground of a browser with an audio context, and no effect at all is emitted.
\<close>

theorem C6_default_sound_counterexample:
  "notificationSound rent \<noteq> Sound_none
   \<and> hasAudioContext browser
   \<and> snd (checkReminders_map (localTZA browser) 1709283900000 [rent]) = [rent]
   \<and> effects (fst (checkReminders browser 1709283900000 (startState [rent]))) = []"
  by code_simp

subsection \<open>The channel\<close>

text \<open>
  Adding a toast first removes every toast with the same id: the new toast is then the
  only one with its id, and toasts with distinct ids stay so, through one notification,
  through the loop and through \<^verbatim>\<open>checkReminders\<close>.
\<close>

lemma replace_toast_once:
  "length (filter (\<lambda>n. id_r n = id_r r) (filter (\<lambda>n. id_r n \<noteq> id_r r) xs @ [r])) = 1"
proof -
  have "filter (\<lambda>n. id_r n = id_r r) (filter (\<lambda>n. id_r n \<noteq> id_r r) xs) = []"
    by (induction xs) simp_all
  then show ?thesis by simp
qed

lemma replace_toast_distinct:
  assumes "distinct (map id_r xs)"
  shows "distinct (map id_r (filter (\<lambda>n. id_r n \<noteq> id_r r) xs @ [r]))"
proof -
  have "distinct (map id_r (filter (\<lambda>n. id_r n \<noteq> id_r r) xs))"
    using assms by (rule distinct_map_filter)
  moreover have "id_r r \<notin> set (map id_r (filter (\<lambda>n. id_r n \<noteq> id_r r) xs))"
    by auto
  ultimately show ?thesis by simp
qed

lemma notifyDue_distinct:
  assumes "distinct (map id_r (activeNotifications s))"
  shows "distinct (map id_r (activeNotifications (fst (notifyDue e r s))))"
proof (cases "documentHidden e")
  case False
  then show ?thesis
    using replace_toast_distinct[OF assms] by (simp add: notifyDue_foreground)
next
  case True
  then show ?thesis
    using assms by (cases "notificationPermission e") (simp_all add: notifyDue_def Let_def)
qed

lemma forEachDue_distinct:
  assumes "distinct (map id_r (activeNotifications s))"
  shows "distinct (map id_r (activeNotifications (fst (forEachDue e due s))))"
  using assms
proof (induction due arbitrary: s)
  case Nil
  then show ?case by simp
next
  case (Cons r due)
  obtain s1 err where n: "notifyDue e r s = (s1, err)" by (cases "notifyDue e r s")
  then have "distinct (map id_r (activeNotifications s1))"
    using notifyDue_distinct[OF Cons.prems, of e r] by simp
  from Cons.IH[OF this] n Cons.prems show ?case
    using notifyDue_distinct[OF Cons.prems, of e r] by (cases err) simp_all
qed

lemma checkReminders_distinct:
  assumes "distinct (map id_r (activeNotifications s))"
  shows "distinct (map id_r (activeNotifications (fst (checkReminders e now s))))"
proof -
  obtain u d where m: "checkReminders_map (localTZA e) now (reminders s) = (u, d)"
    by (cases "checkReminders_map (localTZA e) now (reminders s)")
  have "distinct (map id_r (activeNotifications (s\<lparr>reminders := u\<rparr>)))" using assms by simp
  from forEachDue_distinct[OF this, of e d] m assms show ?thesis
    by (simp add: checkReminders_def)
qed

text \<open>
  The loop of \<^verbatim>\<open>checkReminders\<close> routes every reminder it fires, in the order of the
  store. In the foreground each one takes the place of any toast with its id; in a
  background tab the toasts stay as they are.
\<close>

lemma forEachDue_foreground:
  assumes "\<not> documentHidden e"
  shows "activeNotifications (fst (forEachDue e due s))
     = foldl (\<lambda>toasts r. filter (\<lambda>n. id_r n \<noteq> id_r r) toasts @ [r]) (activeNotifications s) due"
proof (induction due arbitrary: s)
  case Nil
  show ?case by simp
next
  case (Cons r due)
  show ?case
    using Cons.IH assms by (simp add: notifyDue_foreground)
qed

lemma forEachDue_background:
  assumes "documentHidden e"
  shows "activeNotifications (fst (forEachDue e due s)) = activeNotifications s"
proof (induction due arbitrary: s)
  case Nil
  show ?case by simp
next
  case (Cons r due)
  show ?case
  proof (cases "notificationPermission e")
    case None
    show ?thesis by (simp add: notifyDue_no_api[OF assms None])
  next
    case (Some p)
    show ?thesis using Cons.IH by (simp add: notifyDue_background[OF assms Some])
  qed
qed

lemma checkReminders_foreground_toasts:
  assumes "\<not> documentHidden e"
  shows "activeNotifications (fst (checkReminders e now s))
     = foldl (\<lambda>toasts r. filter (\<lambda>n. id_r n \<noteq> id_r r) toasts @ [r]) (activeNotifications s)
         (snd (checkReminders_map (localTZA e) now (reminders s)))"
proof (cases "filter (newlyDue_spec (localTZA e) now) (reminders s) = []")
  case True
  then show ?thesis by (simp add: checkReminders_def checkReminders_map_eq)
next
  case False
  then show ?thesis
    by (simp add: checkReminders_def checkReminders_map_eq forEachDue_foreground[OF assms])
qed

lemma checkReminders_background_toasts:
  assumes "documentHidden e"
  shows "activeNotifications (fst (checkReminders e now s)) = activeNotifications s"
proof (cases "filter (newlyDue_spec (localTZA e) now) (reminders s) = []")
  case True
  then show ?thesis by (simp add: checkReminders_def checkReminders_map_eq)
next
  case False
  then show ?thesis
    by (simp add: checkReminders_def checkReminders_map_eq forEachDue_background[OF assms])
qed

lemma filter_other_id:
  fixes r x :: Reminder and xs :: "Reminder list"
  assumes "id_r r \<noteq> id_r x"
  shows "filter (\<lambda>n. id_r n = id_r r) (filter (\<lambda>n. id_r n \<noteq> id_r x) xs) = filter (\<lambda>n. id_r n = id_r r) xs"
  using assms by (induction xs) auto

lemma replace_toasts_once:
  fixes due toasts :: "Reminder list"
  assumes "r \<in> set due"
  shows "length (filter (\<lambda>n. id_r n = id_r r)
      (foldl (\<lambda>toasts r. filter (\<lambda>n. id_r n \<noteq> id_r r) toasts @ [r]) toasts due)) = 1"
  using assms
proof (induction due rule: rev_induct)
  case Nil
  then show ?case by simp
next
  case (snoc x due)
  let ?T = "foldl (\<lambda>toasts r. filter (\<lambda>n. id_r n \<noteq> id_r r) toasts @ [r]) toasts due"
  show ?case
  proof (cases "id_r r = id_r x")
    case True
    then show ?thesis using replace_toast_once[of x ?T] by simp
  next
    case False
    with snoc.prems have "r \<in> set due" by auto
    from snoc.IH[OF this] have one: "length (filter (\<lambda>n. id_r n = id_r r) ?T) = 1" .
    have "foldl (\<lambda>toasts r. filter (\<lambda>n. id_r n \<noteq> id_r r) toasts @ [r]) toasts (due @ [x])
        = filter (\<lambda>n. id_r n \<noteq> id_r x) ?T @ [x]"
      by simp
    moreover have "filter (\<lambda>n. id_r n = id_r r) (filter (\<lambda>n. id_r n \<noteq> id_r x) ?T @ [x])
        = filter (\<lambda>n. id_r n = id_r r) ?T"
      using False filter_other_id[OF False, of ?T] by (simp del: filter_filter)
    ultimately show ?thesis using one by (simp only:)
  qed
qed

lemma replace_toasts_distinct:
  fixes due toasts :: "Reminder list"
  assumes "distinct (map id_r due)"
  shows "foldl (\<lambda>toasts r. filter (\<lambda>n. id_r n \<noteq> id_r r) toasts @ [r]) toasts due
     = filter (\<lambda>n. id_r n \<notin> set (map id_r due)) toasts @ due"
  using assms
proof (induction due rule: rev_induct)
  case Nil
  then show ?case by simp
next
  case (snoc x due)
  from snoc.prems have d: "distinct (map id_r due)" and x: "id_r x \<notin> set (map id_r due)"
    by simp_all
  have "id_r n \<noteq> id_r x" if "n \<in> set due" for n
  proof
    assume "id_r n = id_r x"
    moreover from that have "id_r n \<in> set (map id_r due)" by simp
    ultimately show False using x by simp
  qed
  then have keep: "filter (\<lambda>n. id_r n \<noteq> id_r x) due = due"
    by (simp add: filter_id_conv)
  have both: "filter (\<lambda>n. id_r n \<noteq> id_r x) (filter (\<lambda>n. id_r n \<notin> set (map id_r due)) toasts)
      = filter (\<lambda>n. id_r n \<notin> set (map id_r (due @ [x]))) toasts"
    by (induction toasts) auto
  show ?case
    using snoc.IH[OF d] keep both by simp
qed

lemma checkReminders_emitted:
  assumes "documentHidden e \<longrightarrow> notificationPermission e \<noteq> None"
  shows "emitted s (fst (checkReminders e now s))
     = concat (map (\<lambda>r. playNotificationSound e (notificationSound r)
          @ (if documentHidden e \<and> notificationPermission e = Some granted
             then [OSNotification ''Bill Reminder'' (notification_body e r)
                     (notificationSound r \<noteq> Sound_default)]
             else []))
         (snd (checkReminders_map (localTZA e) now (reminders s))))"
proof (cases "filter (newlyDue_spec (localTZA e) now) (reminders s) = []")
  case True
  then show ?thesis by (simp add: checkReminders_def checkReminders_map_eq emitted_def)
next
  case False
  then show ?thesis
    using forEachDue_effects[OF assms]
    by (simp add: checkReminders_def checkReminders_map_eq emitted_def)
qed

lemma OSNotifications_of_loop:
  "filter isOSNotification (concat (map (\<lambda>r. playNotificationSound e (notificationSound r) @ extra r) due))
     = concat (map (\<lambda>r. filter isOSNotification (extra r)) due)"
  by (induction due) (simp_all add: playNotificationSound_no_OSNotification)

lemma checkReminders_foreground_quiet:
  assumes "\<not> documentHidden e"
  shows "filter isOSNotification (emitted s (fst (checkReminders e now s))) = []"
proof -
  have ok: "documentHidden e \<longrightarrow> notificationPermission e \<noteq> None" using assms by simp
  show ?thesis
    unfolding checkReminders_emitted[OF ok] OSNotifications_of_loop using assms by simp
qed

lemma checkReminders_background_OSNotifications:
  assumes "documentHidden e" "notificationPermission e = Some granted"
  shows "filter isOSNotification (emitted s (fst (checkReminders e now s)))
     = map (\<lambda>r. OSNotification ''Bill Reminder''
              (billName r @ '' for $'' @ toFixed2 e (amount_r r) @ '' is due!'')
              (notificationSound r \<noteq> Sound_default))
         (snd (checkReminders_map (localTZA e) now (reminders s)))"
proof -
  have ok: "documentHidden e \<longrightarrow> notificationPermission e \<noteq> None" using assms by simp
  have one: "concat (map (\<lambda>r. [g r]) due) = map g due" for g :: "Reminder \<Rightarrow> effect" and due
    by (induction due) simp_all
  show ?thesis
    unfolding checkReminders_emitted[OF ok] OSNotifications_of_loop
    using assms by (simp add: one notification_body_def)
qed

lemma fired_distinct:
  assumes "distinct (map id_r rs)"
  shows "distinct (map id_r (snd (checkReminders_map tza now rs)))"
  using assms by (simp add: checkReminders_map_eq distinct_map_filter)

text \<open>
  Claim C7. Routing a fired reminder depends on the visibility of the application. In the
  foreground the reminder is added to the ActiveNotification set in the place of any entry
  with the same id, so that exactly one entry has its id and distinct ids stay distinct,
  and no OS-level notification is emitted. In the background with the permission granted,
  exactly one OS-level notification is emitted, with the bill name and the formatted
  amount in its body, silent unless the sound is \<open>default\<close>, and the ActiveNotification
  set is left alone. \<^verbatim>\<open>checkReminders\<close> routes so every reminder it fires, in the order
  of the store. In the foreground the set is afterwards the old one with each fired
  reminder added in turn in the place of any entry with its id: every fired reminder has
  exactly one entry with its id, the set is the old entries with other ids followed by the
  fired reminders when the ids of the store are distinct, and no OS-level notification is
  emitted. In the background with the permission granted the OS-level notifications
  emitted are one for each fired reminder, in order, and the set is as before. After a
  whole \<^verbatim>\<open>checkReminders\<close> the ids of the set are still distinct.
\<close>

theorem C7_routing:
  "(\<not> documentHidden e \<longrightarrow>
       activeNotifications (fst (notifyDue e r s))
         = filter (\<lambda>n. id_r n \<noteq> id_r r) (activeNotifications s) @ [r]
     \<and> length (filter (\<lambda>n. id_r n = id_r r) (activeNotifications (fst (notifyDue e r s)))) = 1
     \<and> (distinct (map id_r (activeNotifications s))
          \<longrightarrow> distinct (map id_r (activeNotifications (fst (notifyDue e r s)))))
     \<and> filter isOSNotification (emitted s (fst (notifyDue e r s))) = [])
   \<and> (documentHidden e \<and> notificationPermission e = Some granted \<longrightarrow>
       filter isOSNotification (emitted s (fst (notifyDue e r s)))
         = [OSNotification ''Bill Reminder''
              (billName r @ '' for $'' @ toFixed2 e (amount_r r) @ '' is due!'')
              (notificationSound r \<noteq> Sound_default)]
     \<and> activeNotifications (fst (notifyDue e r s)) = activeNotifications s)
   \<and> (distinct (map id_r (activeNotifications s))
        \<longrightarrow> distinct (map id_r (activeNotifications (fst (checkReminders e now s)))))
   \<and> (\<not> documentHidden e \<longrightarrow>
       activeNotifications (fst (checkReminders e now s))
         = foldl (\<lambda>toasts r. filter (\<lambda>n. id_r n \<noteq> id_r r) toasts @ [r]) (activeNotifications s)
             (snd (checkReminders_map (localTZA e) now (reminders s)))
     \<and> (\<forall>r\<in>set (snd (checkReminders_map (localTZA e) now (reminders s))).
          length (filter (\<lambda>n. id_r n = id_r r) (activeNotifications (fst (checkReminders e now s)))) = 1)
     \<and> (distinct (map id_r (reminders s)) \<longrightarrow>
          activeNotifications (fst (checkReminders e now s))
            = filter (\<lambda>n. id_r n \<notin> set (map id_r (snd (checkReminders_map (localTZA e) now (reminders s)))))
                (activeNotifications s)
              @ snd (checkReminders_map (localTZA e) now (reminders s)))
     \<and> filter isOSNotification (emitted s (fst (checkReminders e now s))) = [])
   \<and> (documentHidden e \<and> notificationPermission e = Some granted \<longrightarrow>
       filter isOSNotification (emitted s (fst (checkReminders e now s)))
         = map (\<lambda>r. OSNotification ''Bill Reminder''
                  (billName r @ '' for $'' @ toFixed2 e (amount_r r) @ '' is due!'')
                  (notificationSound r \<noteq> Sound_default))
             (snd (checkReminders_map (localTZA e) now (reminders s)))
     \<and> activeNotifications (fst (checkReminders e now s)) = activeNotifications s)"
proof -
  have fg: "activeNotifications (fst (notifyDue e r s))
         = filter (\<lambda>n. id_r n \<noteq> id_r r) (activeNotifications s) @ [r]
     \<and> length (filter (\<lambda>n. id_r n = id_r r) (activeNotifications (fst (notifyDue e r s)))) = 1
     \<and> (distinct (map id_r (activeNotifications s))
          \<longrightarrow> distinct (map id_r (activeNotifications (fst (notifyDue e r s)))))
     \<and> filter isOSNotification (emitted s (fst (notifyDue e r s))) = []"
    if "\<not> documentHidden e"
    using that replace_toast_once[of r "activeNotifications s"] notifyDue_distinct[of s e r]
    by (simp add: notifyDue_foreground emitted_def playNotificationSound_no_OSNotification)
  have bg: "filter isOSNotification (emitted s (fst (notifyDue e r s)))
         = [OSNotification ''Bill Reminder''
              (billName r @ '' for $'' @ toFixed2 e (amount_r r) @ '' is due!'')
              (notificationSound r \<noteq> Sound_default)]
     \<and> activeNotifications (fst (notifyDue e r s)) = activeNotifications s"
    if "documentHidden e \<and> notificationPermission e = Some granted"
    using that
    by (simp add: notifyDue_background[of e granted] emitted_def playNotificationSound_no_OSNotification
        notification_body_def)
  have ids: "distinct (map id_r (activeNotifications (fst (checkReminders e now s))))"
    if "distinct (map id_r (activeNotifications s))"
    using that by (rule checkReminders_distinct)
  have tick_fg: "activeNotifications (fst (checkReminders e now s))
         = foldl (\<lambda>toasts r. filter (\<lambda>n. id_r n \<noteq> id_r r) toasts @ [r]) (activeNotifications s)
             (snd (checkReminders_map (localTZA e) now (reminders s)))
     \<and> (\<forall>r\<in>set (snd (checkReminders_map (localTZA e) now (reminders s))).
          length (filter (\<lambda>n. id_r n = id_r r) (activeNotifications (fst (checkReminders e now s)))) = 1)
     \<and> (distinct (map id_r (reminders s)) \<longrightarrow>
          activeNotifications (fst (checkReminders e now s))
            = filter (\<lambda>n. id_r n \<notin> set (map id_r (snd (checkReminders_map (localTZA e) now (reminders s)))))
                (activeNotifications s)
              @ snd (checkReminders_map (localTZA e) now (reminders s)))
     \<and> filter isOSNotification (emitted s (fst (checkReminders e now s))) = []"
    if v: "\<not> documentHidden e"
  proof (intro conjI ballI impI)
    show "activeNotifications (fst (checkReminders e now s))
         = foldl (\<lambda>toasts r. filter (\<lambda>n. id_r n \<noteq> id_r r) toasts @ [r]) (activeNotifications s)
             (snd (checkReminders_map (localTZA e) now (reminders s)))"
      by (rule checkReminders_foreground_toasts[OF v])
  next
    fix x assume "x \<in> set (snd (checkReminders_map (localTZA e) now (reminders s)))"
    then show "length (filter (\<lambda>n. id_r n = id_r x) (activeNotifications (fst (checkReminders e now s)))) = 1"
      unfolding checkReminders_foreground_toasts[OF v] by (rule replace_toasts_once)
  next
    assume "distinct (map id_r (reminders s))"
    then have "distinct (map id_r (snd (checkReminders_map (localTZA e) now (reminders s))))"
      by (rule fired_distinct)
    then show "activeNotifications (fst (checkReminders e now s))
            = filter (\<lambda>n. id_r n \<notin> set (map id_r (snd (checkReminders_map (localTZA e) now (reminders s)))))
                (activeNotifications s)
              @ snd (checkReminders_map (localTZA e) now (reminders s))"
      unfolding checkReminders_foreground_toasts[OF v] by (rule replace_toasts_distinct)
  next
    show "filter isOSNotification (emitted s (fst (checkReminders e now s))) = []"
      by (rule checkReminders_foreground_quiet[OF v])
  qed
  have tick_bg: "filter isOSNotification (emitted s (fst (checkReminders e now s)))
         = map (\<lambda>r. OSNotification ''Bill Reminder''
                  (billName r @ '' for $'' @ toFixed2 e (amount_r r) @ '' is due!'')
                  (notificationSound r \<noteq> Sound_default))
             (snd (checkReminders_map (localTZA e) now (reminders s)))
     \<and> activeNotifications (fst (checkReminders e now s)) = activeNotifications s"
    if h: "documentHidden e \<and> notificationPermission e = Some granted"
    using checkReminders_background_OSNotifications[of e s now]
      checkReminders_background_toasts[of e now s] h by simp
  show ?thesis
    by (intro conjI; rule impI; erule fg bg ids tick_fg tick_bg)
qed

text \<open>
  The rent reminder fired in the foreground replaces its old toast; fired in a background
  tab it gives one OS notification, not silent since its sound is the default one. At
  09:15 both sample reminders fire: in the foreground both get a toast, the one of the
  second in the place of its old toast; in a background tab each gets its OS notification.
\<close>

theorem C7_routing_witness:
  "activeNotifications (fst (notifyDue browser rent
       \<lparr> reminders = [rentPaid], activeNotifications = [rent, rentSnoozed], effects = [] \<rparr>))
     = [rentSnoozed, rent]
   \<and> emitted (startState [rentPaid]) (fst (notifyDue backgroundTab rent (startState [rentPaid])))
     = [OSNotification ''Bill Reminder'' ''Rent for $1200.00 is due!'' False]
   \<and> activeNotifications (fst (checkReminders browser 1709284500000
       \<lparr> reminders = [rent, rentSnoozed], activeNotifications = [rentSnoozed], effects = [] \<rparr>))
     = [rent, rentSnoozed]
   \<and> filter isOSNotification (emitted (startState [rent, rentSnoozed])
       (fst (checkReminders backgroundTab 1709284500000 (startState [rent, rentSnoozed]))))
     = [OSNotification ''Bill Reminder'' ''Rent for $1200.00 is due!'' False,
        OSNotification ''Bill Reminder'' ''Rent for $1200.00 is due!'' False]"
proof -
  let ?toasts = "\<lparr> reminders = [rentPaid], activeNotifications = [rent, rentSnoozed], effects = [] \<rparr>"
  let ?open = "\<lparr> reminders = [rent, rentSnoozed], activeNotifications = [rentSnoozed], effects = [] \<rparr>"
  have fg: "\<not> documentHidden browser" by (simp add: browser_def)
  have bg: "documentHidden backgroundTab \<and> notificationPermission backgroundTab = Some granted"
    by (simp add: backgroundTab_def browser_def)
  have body: "[OSNotification ''Bill Reminder''
          (billName rent @ '' for $'' @ toFixed2 backgroundTab (amount_r rent) @ '' is due!'')
          (notificationSound rent \<noteq> Sound_default)]
      = [OSNotification ''Bill Reminder'' ''Rent for $1200.00 is due!'' False]"
    by code_simp
  have quiet: "emitted (startState [rentPaid]) (fst (notifyDue backgroundTab rent (startState [rentPaid])))
      = filter isOSNotification
          (emitted (startState [rentPaid]) (fst (notifyDue backgroundTab rent (startState [rentPaid]))))"
    by code_simp
  have ids: "filter (\<lambda>n. id_r n \<noteq> id_r rent) (activeNotifications ?toasts) @ [rent] = [rentSnoozed, rent]"
    by code_simp
  have store: "distinct (map id_r (reminders ?open))"
    by code_simp
  have fired: "filter (\<lambda>n. id_r n \<notin> set (map id_r
          (snd (checkReminders_map (localTZA browser) 1709284500000 (reminders ?open)))))
        (activeNotifications ?open)
      @ snd (checkReminders_map (localTZA browser) 1709284500000 (reminders ?open))
      = [rent, rentSnoozed]"
    by code_simp
  have bodies: "map (\<lambda>r. OSNotification ''Bill Reminder''
          (billName r @ '' for $'' @ toFixed2 backgroundTab (amount_r r) @ '' is due!'')
          (notificationSound r \<noteq> Sound_default))
        (snd (checkReminders_map (localTZA backgroundTab) 1709284500000
           (reminders (startState [rent, rentSnoozed]))))
      = [OSNotification ''Bill Reminder'' ''Rent for $1200.00 is due!'' False,
         OSNotification ''Bill Reminder'' ''Rent for $1200.00 is due!'' False]"
    by code_simp
  note one_fg = C7_routing[where e = browser and r = rent and now = 0 and s = ?toasts]
  note one_bg = C7_routing[where e = backgroundTab and r = rent and now = 0 and s = "startState [rentPaid]"]
  note tick_fg = C7_routing[where e = browser and r = rent and now = 1709284500000 and s = ?open]
  note tick_bg = C7_routing[where e = backgroundTab and r = rent and now = 1709284500000
      and s = "startState [rent, rentSnoozed]"]
  have 1: "activeNotifications (fst (notifyDue browser rent ?toasts)) = [rentSnoozed, rent]"
    using one_fg[THEN conjunct1, THEN mp, OF fg, THEN conjunct1] ids by (rule trans)
  have 2: "emitted (startState [rentPaid]) (fst (notifyDue backgroundTab rent (startState [rentPaid])))
      = [OSNotification ''Bill Reminder'' ''Rent for $1200.00 is due!'' False]"
    using quiet one_bg[THEN conjunct2, THEN conjunct1, THEN mp, OF bg, THEN conjunct1] body
    by (simp only:)
  have 3: "activeNotifications (fst (checkReminders browser 1709284500000 ?open)) = [rent, rentSnoozed]"
    using tick_fg[THEN conjunct2, THEN conjunct2, THEN conjunct2, THEN conjunct1, THEN mp, OF fg,
        THEN conjunct2, THEN conjunct2, THEN conjunct1, THEN mp, OF store] fired
    by (rule trans)
  have 4: "filter isOSNotification (emitted (startState [rent, rentSnoozed])
       (fst (checkReminders backgroundTab 1709284500000 (startState [rent, rentSnoozed]))))
     = [OSNotification ''Bill Reminder'' ''Rent for $1200.00 is due!'' False,
        OSNotification ''Bill Reminder'' ''Rent for $1200.00 is due!'' False]"
    using tick_bg[THEN conjunct2, THEN conjunct2, THEN conjunct2, THEN conjunct2, THEN mp, OF bg,
        THEN conjunct1] bodies
    by (rule trans)
  from 1 2 3 4 show ?thesis by (intro conjI)
qed

section \<open>Toasts and the store\<close>

text \<open>
  Notifying adds toasts of due reminders only, and the ids of the store survive an
  evaluation: a tick keeps every toast in the store.
\<close>

lemma notifyDue_toasts:
  "set (map id_r (activeNotifications (fst (notifyDue e r s))))
     \<subseteq> set (map id_r (activeNotifications s)) \<union> {id_r r}"
  by (cases "notificationPermission e") (auto simp: notifyDue_def Let_def)

lemma forEachDue_toasts:
  "set (map id_r (activeNotifications (fst (forEachDue e due s))))
     \<subseteq> set (map id_r (activeNotifications s)) \<union> set (map id_r due)"
proof (induction due arbitrary: s)
  case Nil
  show ?case by simp
next
  case (Cons r due)
  obtain s1 err where n: "notifyDue e r s = (s1, err)" by (cases "notifyDue e r s")
  have 1: "set (map id_r (activeNotifications s1)) \<subseteq> set (map id_r (activeNotifications s)) \<union> {id_r r}"
    using notifyDue_toasts[of e r s] n by simp
  show ?case
  proof (cases err)
    case None
    with n have "fst (forEachDue e (r # due) s) = fst (forEachDue e due s1)" by simp
    with Cons.IH[of s1] 1 show ?thesis by auto
  next
    case (Some x)
    with n have "fst (forEachDue e (r # due) s) = s1" by simp
    with 1 show ?thesis by auto
  qed
qed

lemma checkReminders_ids:
  "map id_r (reminders (fst (checkReminders e now s))) = map id_r (reminders s)"
proof -
  have "map id_r (map (\<lambda>r. if newlyDue_spec z now r then r\<lparr>notified := True\<rparr> else r) xs) = map id_r xs"
    for z xs
    by (induction xs) simp_all
  then show ?thesis by (simp add: checkReminders_reminders checkReminders_map_eq)
qed

lemma checkReminders_keeps_toasts_in_store:
  assumes "toasts_in_store s"
  shows "toasts_in_store (fst (checkReminders e now s))"
proof -
  let ?due = "filter (newlyDue_spec (localTZA e) now) (reminders s)"
  let ?upd = "map (\<lambda>r. if newlyDue_spec (localTZA e) now r then r\<lparr>notified := True\<rparr> else r) (reminders s)"
  have ids: "map id_r (reminders (fst (checkReminders e now s))) = map id_r (reminders s)"
    by (rule checkReminders_ids)
  have act: "set (map id_r (activeNotifications (fst (checkReminders e now s))))
      \<subseteq> set (map id_r (activeNotifications s)) \<union> set (map id_r ?due)"
  proof (cases "?due = []")
    case True
    then show ?thesis by (simp add: checkReminders_def checkReminders_map_eq)
  next
    case False
    then show ?thesis
      using forEachDue_toasts[of e ?due "s\<lparr>reminders := ?upd\<rparr>"]
      by (simp add: checkReminders_def checkReminders_map_eq)
  qed
  have "set (map id_r ?due) \<subseteq> set (map id_r (reminders s))" by auto
  with act assms show ?thesis
    unfolding toasts_in_store_def ids by blast
qed


text \<open>
  Saving a reminder never takes an id out of the store; a snooze and a dismiss only
  remove toasts. So does every operation but the delete keep the toasts in the store.
\<close>

lemma handleSaveReminder_keeps_toasts_in_store:
  assumes "toasts_in_store s"
  shows "toasts_in_store (handleSaveReminder saved s)"
proof -
  have "set (map id_r (reminders s)) \<subseteq> set (map id_r (reminders (handleSaveReminder saved s)))"
    using handleSaveReminder_store[of saved s] by (auto split: if_splits)
  moreover have "activeNotifications (handleSaveReminder saved s) = activeNotifications s"
    by (simp add: handleSaveReminder_def)
  ultimately show ?thesis using assms unfolding toasts_in_store_def by auto
qed

lemma handleSnoozeReminder_keeps_toasts_in_store:
  assumes "toasts_in_store s"
  shows "toasts_in_store (handleSnoozeReminder now rid s)"
proof -
  have ids: "map id_r (map (\<lambda>r. if id_r r = rid then r\<lparr>snoozeUntil := Some u, notified := False\<rparr> else r) xs)
      = map id_r xs" for u xs
    by (induction xs) simp_all
  have 1: "map id_r (reminders (handleSnoozeReminder now rid s)) = map id_r (reminders s)"
    by (cases "toISOString (TimeClip (now + 10 * 60 * 1000))") (simp_all add: handleSnoozeReminder_def ids)
  have 2: "set (map id_r (activeNotifications (handleSnoozeReminder now rid s)))
      \<subseteq> set (map id_r (activeNotifications s))"
    by (cases "toISOString (TimeClip (now + 10 * 60 * 1000))") (auto simp: handleSnoozeReminder_def)
  from 2 assms show ?thesis unfolding toasts_in_store_def 1 by blast
qed

lemma handleDismissNotification_keeps_toasts_in_store:
  assumes "toasts_in_store s"
  shows "toasts_in_store (handleDismissNotification rid s)"
  using assms by (auto simp: toasts_in_store_def handleDismissNotification_def)

lemma step_keeps_toasts_in_store:
  assumes "toasts_in_store s" "\<not> isDelete a"
  shows "toasts_in_store (step s a)"
  using assms
  by (cases a)
    (simp_all add: checkReminders_keeps_toasts_in_store handleSaveReminder_keeps_toasts_in_store
      handleSnoozeReminder_keeps_toasts_in_store handleDismissNotification_keeps_toasts_in_store)

lemma run_keeps_toasts_in_store:
  assumes "toasts_in_store s" "\<forall>a\<in>set acts. \<not> isDelete a"
  shows "toasts_in_store (run s acts)"
  using assms unfolding run_def
proof (induction acts arbitrary: s)
  case Nil
  then show ?case by simp
next
  case (Cons a acts)
  then have "toasts_in_store (step s a)" by (simp add: step_keeps_toasts_in_store)
  with Cons show ?case by simp
qed

text \<open>
  \<^verbatim>\<open>handleDeleteReminder\<close> filters the reminders and nothing else: the toasts stay in the
  store exactly when the deleted reminder has no toast.
\<close>

lemma delete_toasts_in_store:
  assumes "toasts_in_store s"
  shows "toasts_in_store (handleDeleteReminder rid s) \<longleftrightarrow> rid \<notin> set (map id_r (activeNotifications s))"
proof
  assume d: "toasts_in_store (handleDeleteReminder rid s)"
  show "rid \<notin> set (map id_r (activeNotifications s))"
  proof
    assume "rid \<in> set (map id_r (activeNotifications s))"
    with d have "rid \<in> set (map id_r (filter (\<lambda>r. id_r r \<noteq> rid) (reminders s)))"
      unfolding toasts_in_store_def handleDeleteReminder_def by auto
    then show False by auto
  qed
next
  assume n: "rid \<notin> set (map id_r (activeNotifications s))"
  show "toasts_in_store (handleDeleteReminder rid s)"
    unfolding toasts_in_store_def handleDeleteReminder_def
  proof
    fix x
    assume x: "x \<in> set (map id_r (activeNotifications
        (s\<lparr>reminders := filter (\<lambda>r. id_r r \<noteq> rid) (reminders s)\<rparr>)))"
    then have xa: "x \<in> set (map id_r (activeNotifications s))" by simp
    with n have "x \<noteq> rid" by auto
    moreover from xa assms have "x \<in> set (map id_r (reminders s))"
      unfolding toasts_in_store_def by blast
    ultimately show "x \<in> set (map id_r (reminders
        (s\<lparr>reminders := filter (\<lambda>r. id_r r \<noteq> rid) (reminders s)\<rparr>)))"
      by auto
  qed
qed

text \<open>
  Claim C9, amended. The ActiveNotification set starts empty, and after every sequence
  of due-detection ticks, reminder adds and edits, snoozes and dismisses it holds no
  reminder whose id is not also in the Reminder Store. Deleting a reminder leaves the
  ActiveNotification set as it is: after a delete the set is still within the store if
  and only if the deleted reminder had no entry in it.
\<close>

theorem C9_toasts_in_store_amended:
  "toasts_in_store (startState rs)
   \<and> (toasts_in_store s \<and> (\<forall>a\<in>set acts. \<not> isDelete a) \<longrightarrow> toasts_in_store (run s acts))
   \<and> activeNotifications (handleDeleteReminder rid s) = activeNotifications s
   \<and> (toasts_in_store s \<longrightarrow>
        (toasts_in_store (handleDeleteReminder rid s)
           \<longleftrightarrow> rid \<notin> set (map id_r (activeNotifications s))))"
proof -
  have "toasts_in_store (startState rs)"
    by (simp add: toasts_in_store_def startState_def)
  moreover have "activeNotifications (handleDeleteReminder rid s) = activeNotifications s"
    by (simp add: handleDeleteReminder_def)
  ultimately show ?thesis
    using run_keeps_toasts_in_store[of s acts] delete_toasts_in_store[of s rid] by blast
qed

text \<open>
  A tick at 09:05, a snooze of the rent toast, a tick at 09:15, an edit of the rent
  reminder and a dismiss of the other toast: the one toast left is in the store.
\<close>

theorem C9_toasts_in_store_amended_witness:
  "toasts_in_store (run (startState [rent, rentSnoozed])
      [Tick browser 1709283900000, Snooze 1709283900000 (id_r rent), Tick browser 1709284500000,
       Submit browser 1709284500000 rentForm (Some rent), Dismiss (id_r rentSnoozed)])
   \<and> activeNotifications (run (startState [rent, rentSnoozed])
      [Tick browser 1709283900000, Snooze 1709283900000 (id_r rent), Tick browser 1709284500000,
       Submit browser 1709284500000 rentForm (Some rent), Dismiss (id_r rentSnoozed)])
     = [rent\<lparr>snoozeUntil := Some ''2024-03-01T09:15:00.000Z''\<rparr>]"
proof -
  have a: "toasts_in_store (startState [rent, rentSnoozed])"
    using C9_toasts_in_store_amended[of "[rent, rentSnoozed]"] by blast
  have b: "\<forall>a\<in>set [Tick browser 1709283900000, Snooze 1709283900000 (id_r rent),
       Tick browser 1709284500000, Submit browser 1709284500000 rentForm (Some rent),
       Dismiss (id_r rentSnoozed)]. \<not> isDelete a"
    by simp
  have c: "activeNotifications (run (startState [rent, rentSnoozed])
      [Tick browser 1709283900000, Snooze 1709283900000 (id_r rent), Tick browser 1709284500000,
       Submit browser 1709284500000 rentForm (Some rent), Dismiss (id_r rentSnoozed)])
     = [rent\<lparr>snoozeUntil := Some ''2024-03-01T09:15:00.000Z''\<rparr>]"
    by code_simp
  from C9_toasts_in_store_amended[of "[rent, rentSnoozed]" "startState [rent, rentSnoozed]"] a b c
  show ?thesis by blast
qed

text \<open>
  The rent reminder fires at 09:05 in the foreground and is then deleted: its toast is
  still in the ActiveNotification set, and the store is empty.
\<close>

theorem C9_delete_leaves_toast_counterexample:
  "toasts_in_store (startState [rent])
   \<and> activeNotifications (run (startState [rent]) [Tick browser 1709283900000, Delete (id_r rent)]) = [rent]
   \<and> reminders (run (startState [rent]) [Tick browser 1709283900000, Delete (id_r rent)]) = []
   \<and> \<not> toasts_in_store (run (startState [rent]) [Tick browser 1709283900000, Delete (id_r rent)])"
  by code_simp

section \<open>Properties of the month view\<close>

subsection \<open>From a calendar date to a day and back\<close>

text \<open>
  A string that names a day of the calendar is read by \<^verbatim>\<open>new Date\<close> as the UTC
  midnight of that day, and every instant of that UTC day has the year and the month the
  string names.
\<close>

lemma digitVal_range: "digitVal c = Some v \<Longrightarrow> 0 \<le> v \<and> v \<le> 9"
  by (auto simp: digitVal_def Let_def split: if_splits)

lemma parseDigitsFrom_range:
  "parseDigitsFrom acc cs = Some y \<Longrightarrow> 0 \<le> acc \<Longrightarrow> 0 \<le> y \<and> y < (acc + 1) * 10 ^ length cs"
proof (induction cs arbitrary: acc)
  case Nil
  then show ?case by simp
next
  case (Cons c cs)
  from Cons.prems(1) obtain v where v: "digitVal c = Some v"
    and rest: "parseDigitsFrom (10 * acc + v) cs = Some y"
    by (auto split: option.splits)
  from digitVal_range[OF v] have vr: "0 \<le> v" "v \<le> 9" by simp_all
  with Cons.prems(2) have "0 \<le> 10 * acc + v" by simp
  from Cons.IH[OF rest this] have y: "0 \<le> y" "y < (10 * acc + v + 1) * 10 ^ length cs" by simp_all
  have "(10 * acc + v + 1) * 10 ^ length cs \<le> (10 * acc + 10) * (10::int) ^ length cs"
    by (rule mult_right_mono) (use vr in simp_all)
  also have "\<dots> = (acc + 1) * 10 ^ length (c # cs)" by (simp add: algebra_simps)
  finally have "(10 * acc + v + 1) * 10 ^ length cs \<le> (acc + 1) * 10 ^ length (c # cs)" .
  with y(2) have "y < (acc + 1) * 10 ^ length (c # cs)" by (rule less_le_trans)
  with y(1) show ?case by blast
qed

lemma parseDigits_range: "parseDigits s = Some y \<Longrightarrow> 0 \<le> y \<and> y < 10 ^ length s"
  using parseDigitsFrom_range[of 0 s y] by (simp add: parseDigits_def split: if_splits)

lemma calendarDate_fields:
  assumes "calendarDate s = Some (y, m, d)"
  shows "parseDatePart s = Some (MakeDay y (m - 1) d)"
    and "dateField_year s = Some y" and "dateField_month s = Some m"
    and "0 \<le> y" "y \<le> 9999" "1 \<le> m" "m \<le> 12" "1 \<le> d"
    and "d \<le> monthStart (leapDays y) m - monthStart (leapDays y) (m - 1)"
proof -
  from assms have len: "length s = 10" and sep: "s ! 4 = CHR ''-''" "s ! 7 = CHR ''-''"
    by (simp_all add: calendarDate_def split: if_splits)
  from assms len sep have py: "parseDigits (take 4 s) = Some y"
    and pm: "parseDigits (take 2 (drop 5 s)) = Some m"
    and pd: "parseDigits (drop 8 s) = Some d"
    and ok: "1 \<le> m \<and> m \<le> 12 \<and> 1 \<le> d \<and> d \<le> monthStart (leapDays y) m - monthStart (leapDays y) (m - 1)"
    by (auto simp: calendarDate_def split: option.splits if_splits)
  from ok show "1 \<le> m" "m \<le> 12" "1 \<le> d"
    "d \<le> monthStart (leapDays y) m - monthStart (leapDays y) (m - 1)" by simp_all
  from parseDigits_range[OF py] len show "0 \<le> y" "y \<le> 9999" by simp_all
  show "dateField_year s = Some y" by (simp add: dateField_year_def py)
  show "dateField_month s = Some m" by (simp add: dateField_month_def pm)
  have "d \<le> 31"
    using ok leapDays_cases[of y] by (auto simp: monthStart_def split: if_splits)
  with ok len sep py pm pd show "parseDatePart s = Some (MakeDay y (m - 1) d)"
    by (simp add: parseDatePart_def)
qed

lemma monthStart_mono_bounds:
  assumes "leap = 0 \<or> leap = 1" "1 \<le> m" "m \<le> 12"
  shows "0 \<le> monthStart leap (m - 1)" "monthStart leap m \<le> 365 + leap"
  using assms by (auto simp: monthStart_def)

lemma monthOfDay_in_month:
  assumes "leap = 0 \<or> leap = 1" "1 \<le> m" "m \<le> 12"
    "monthStart leap (m - 1) \<le> dwy" "dwy < monthStart leap m"
  shows "monthOfDay leap dwy = m - 1"
proof -
  from assms(2,3) have "m = 1 \<or> m = 2 \<or> m = 3 \<or> m = 4 \<or> m = 5 \<or> m = 6 \<or> m = 7 \<or> m = 8
      \<or> m = 9 \<or> m = 10 \<or> m = 11 \<or> m = 12" by presburger
  then show ?thesis
    using assms(1,4,5) by (elim disjE) (auto simp: monthStart_def monthOfDay_def)
qed

lemma civil_of_MakeDay:
  assumes "1 \<le> m" "m \<le> 12" "1 \<le> d"
    "d \<le> monthStart (leapDays y) m - monthStart (leapDays y) (m - 1)"
    "0 \<le> off" "off < msPerDay"
  shows "YearFromTime (MakeDate (MakeDay y (m - 1) d) 0 + off) = y"
    and "MonthFromTime (MakeDate (MakeDay y (m - 1) d) 0 + off) = m - 1"
proof -
  define D where "D = DayFromYear y + monthStart (leapDays y) (m - 1) + d - 1"
  have md: "MakeDay y (m - 1) d = D"
    using assms(1,2) by (simp add: MakeDay_def D_def)
  have "(D * msPerDay + off) div msPerDay = D"
    by (rule int_div_pos_eq[of _ _ _ off]) (use assms(5,6) in \<open>simp_all add: mult.commute\<close>)
  then have day: "Day (MakeDate (MakeDay y (m - 1) d) 0 + off) = D"
    by (simp add: Day_def MakeDate_def md)
  have b: "0 \<le> monthStart (leapDays y) (m - 1)" "monthStart (leapDays y) m \<le> 365 + leapDays y"
    using monthStart_mono_bounds[OF leapDays_cases assms(1,2)] by simp_all
  have lo: "DayFromYear y \<le> D" using b(1) assms(3) by (simp add: D_def)
  have "D < DayFromYear y + DaysInYear y"
    using b(2) assms(4) by (simp add: D_def DaysInYear_def leapDays_def split: if_splits)
  then have hi: "D < DayFromYear (y + 1)" by (simp add: DayFromYear_Suc)
  from yearOfDay_range[OF lo hi] have yr: "yearOfDay D = y" by simp
  then show y: "YearFromTime (MakeDate (MakeDay y (m - 1) d) 0 + off) = y"
    by (simp add: YearFromTime_def day)
  have "monthOfDay (leapDays y) (D - DayFromYear y) = m - 1"
    by (rule monthOfDay_in_month[OF leapDays_cases assms(1,2)]) (use assms(3,4) in \<open>simp_all add: D_def\<close>)
  then show "MonthFromTime (MakeDate (MakeDay y (m - 1) d) 0 + off) = m - 1"
    by (simp add: MonthFromTime_def DayWithinYear_def y day)
qed

lemma newDate_calendarDate:
  assumes "calendarDate s = Some (y, m, d)"
  shows "newDate tza s = Some (MakeDate (MakeDay y (m - 1) d) 0)"
proof -
  note f = calendarDate_fields[OF assms]
  from assms have len: "length s = 10" by (simp add: calendarDate_def split: if_splits)
  have b: "0 \<le> monthStart (leapDays y) (m - 1)" "monthStart (leapDays y) m \<le> 365 + leapDays y"
    using monthStart_mono_bounds[OF leapDays_cases f(6,7)] by simp_all
  have "DayFromYear 0 \<le> DayFromYear y" by (rule DayFromYear_mono[OF f(4)])
  moreover have "DayFromYear y \<le> DayFromYear 9999" by (rule DayFromYear_mono[OF f(5)])
  moreover have "DayFromYear 0 = - 719528" "DayFromYear 9999 = 2932532"
    by (simp_all add: DayFromYear_def)
  moreover have "MakeDay y (m - 1) d = DayFromYear y + monthStart (leapDays y) (m - 1) + d - 1"
    using f(6,7) by (simp add: MakeDay_def)
  moreover have "leapDays y \<le> 1" by (simp add: leapDays_def)
  ultimately have "- 719528 \<le> MakeDay y (m - 1) d" "MakeDay y (m - 1) d \<le> 2932532 + 366"
    using b f(8,9) by linarith+
  then have "\<bar>MakeDate (MakeDay y (m - 1) d) 0\<bar> \<le> 8640000000000000"
    by (simp add: MakeDate_def msPerDay_def abs_le_iff)
  then show ?thesis
    using len f(1) by (simp add: newDate_def Date_parse_def TimeClip_def)
qed

text \<open>
  Where local time is UTC or ahead of it by less than a day, the local day of a UTC
  midnight is the same day. There the filter of the code is the filter of the
  specification, for every view date and all transactions dated with a day of the
  calendar.
\<close>

lemma month_filter_exact_east_of_UTC:
  assumes "0 \<le> tza" "tza < 86400000"
    and "\<forall>t\<in>set transactions. calendarDate (date t) \<noteq> None"
    and "getFullYear tza viewDate = Some year" "getMonth tza viewDate = Some month"
  shows "filteredTransactions tza transactions viewDate
    = filterToMonth_spec transactions year (month + 1)"
proof -
  have "sameMonth tza (newDate tza (date t)) viewDate
      = (dateField_year (date t) = Some year \<and> dateField_month (date t) = Some (month + 1))"
    if "t \<in> set transactions" for t
  proof -
    from that assms(3) obtain y m d where c: "calendarDate (date t) = Some (y, m, d)" by auto
    note f = calendarDate_fields[OF c]
    have off: "0 \<le> tza" "tza < msPerDay" using assms(1,2) by (simp_all add: msPerDay_def)
    note civ = civil_of_MakeDay[OF f(6,7,8,9) off]
    show ?thesis
      using civ assms(4,5)
      by (auto simp: sameMonth_def newDate_calendarDate[OF c] getFullYear_def getMonth_def
          strict_eq_def LocalTime_def f(2,3))
  qed
  then show ?thesis
    unfolding filteredTransactions_def filterToMonth_spec_def by (rule filter_cong[OF refl])
qed

subsection \<open>The totals\<close>

text \<open>
  The totals are the sums the specification asks for, and the balance is their
  difference; the example of the specification, an income of 100 and an expense of 40,
  gives 100, 40 and 60. The sums are sums of real numbers: what the rounding of the
  doubles of the code adds to a sum of amounts is outside the model.
\<close>

lemma foldl_amounts:
  "foldl (\<lambda>sum t. sum + amount_t t) a ts = a + sum_list (map amount_t ts)"
  by (induction ts arbitrary: a) simp_all

lemma totals_are_sums:
  "totalIncome filtered = sum_list (map amount_t (filter (\<lambda>t. type_t t = income) filtered))
   \<and> totalExpenses filtered = sum_list (map amount_t (filter (\<lambda>t. type_t t = expense) filtered))
   \<and> balance filtered = totalIncome filtered - totalExpenses filtered"
  by (simp add: totalIncome_def totalExpenses_def balance_def foldl_amounts)

lemma totals_example:
  "totalIncome [salary, groceries] = 100 \<and> totalExpenses [salary, groceries] = 40
   \<and> balance [salary, groceries] = 60"
  by (simp add: totalIncome_def totalExpenses_def balance_def salary_def groceries_def)

subsection \<open>The month filter in every time zone\<close>

text \<open>
  The example of the specification holds in every time zone from UTC-12 to UTC+14: a
  transaction dated 2024-01-31 is in the view of January 2024 and not in the view of
  February 2024.
\<close>

lemma LocalTime_UTC: "LocalTime tza (UTC tza t) = t"
  by (simp add: LocalTime_def UTC_def)

lemma january_31_in_every_zone:
  assumes "- 43200000 \<le> tza" "tza \<le> 50400000"
  shows "filteredTransactions tza [salary] (newDateYMD tza 2024 0 1) = [salary]
    \<and> filteredTransactions tza [salary] (newDateYMD tza 2024 1 1) = []"
proof -
  have parsed: "newDate tza (date salary) = Some 1706659200000"
    by code_simp
  have jan: "newDateYMD tza 2024 0 1 = Some (UTC tza 1704067200000)"
  proof -
    have "MakeDate (MakeDay 2024 0 1) 0 = 1704067200000" by code_simp
    moreover have "\<bar>UTC tza 1704067200000\<bar> \<le> 8640000000000000"
      using assms by (simp add: UTC_def)
    ultimately show ?thesis by (simp add: newDateYMD_def TimeClip_def)
  qed
  have feb: "newDateYMD tza 2024 1 1 = Some (UTC tza 1706745600000)"
  proof -
    have "MakeDate (MakeDay 2024 1 1) 0 = 1706745600000" by code_simp
    moreover have "\<bar>UTC tza 1706745600000\<bar> \<le> 8640000000000000"
      using assms by (simp add: UTC_def)
    ultimately show ?thesis by (simp add: newDateYMD_def TimeClip_def)
  qed
  have day: "Day (LocalTime tza 1706659200000) = 19753 \<or> Day (LocalTime tza 1706659200000) = 19752"
  proof (cases "0 \<le> tza")
    case True
    have "(1706659200000 + tza) div 86400000 = 19753"
      by (rule int_div_pos_eq[of _ _ _ tza]) (use True assms in simp_all)
    then show ?thesis by (simp add: Day_def LocalTime_def msPerDay_def)
  next
    case False
    have "(1706659200000 + tza) div 86400000 = 19752"
      by (rule int_div_pos_eq[of _ _ _ "tza + 86400000"]) (use False assms in simp_all)
    then show ?thesis by (simp add: Day_def LocalTime_def msPerDay_def)
  qed
  have y: "yearOfDay 19753 = 2024" "yearOfDay 19752 = 2024" by code_simp+
  have yv: "YearFromTime 1704067200000 = 2024" "YearFromTime 1706745600000 = 2024" by code_simp+
  have mv: "MonthFromTime 1704067200000 = 0" "MonthFromTime 1706745600000 = 1" by code_simp+
  have df: "DayFromYear 2024 = 19723" by code_simp
  have ld: "leapDays 2024 = 1" by code_simp
  have m: "monthOfDay 1 (19753 - 19723) = 0" "monthOfDay 1 (19752 - 19723) = 0" by code_simp+
  have year: "YearFromTime (LocalTime tza 1706659200000) = 2024"
    using day y by (auto simp: YearFromTime_def)
  have month: "MonthFromTime (LocalTime tza 1706659200000) = 0"
    using day m by (auto simp: MonthFromTime_def DayWithinYear_def year df ld)
  show ?thesis
    by (simp add: filteredTransactions_def sameMonth_def parsed jan feb getFullYear_def getMonth_def
        strict_eq_def LocalTime_UTC year month yv mv)
qed

text \<open>
  The reminders are filtered by their due date in the same way. Five hours behind UTC the
  rent reminder, due on 1 March at 09:00 local time for \<^verbatim>\<open>checkReminders\<close>, is listed
  under February 2024 and not under March 2024.
\<close>

lemma filteredReminders_west_of_UTC:
  "dueInstant (- 18000000) rent = Some 1709301600000
   \<and> filteredReminders (- 18000000) [rent] (newDateYMD (- 18000000) 2024 2 1) = []
   \<and> filteredReminders (- 18000000) [rent] (newDateYMD (- 18000000) 2024 1 1) = [rent]"
  by code_simp

text \<open>
  Claim C8 says that the month filter keeps exactly the items whose date falls in the
  viewed calendar year and calendar month. West of UTC the code does not: it reads the
  date string as UTC midnight and takes the year and the month of that instant in local
  time, which is the evening before. With local time five hours behind UTC, the
  transaction dated 2024-02-01 is missing from the view of February 2024 and shown in
  the view of January 2024.
\<close>

theorem C8_month_filter_west_of_UTC:
  "date groceries = ''2024-02-01''
   \<and> filterToMonth_spec [groceries] 2024 2 = [groceries]
   \<and> filterToMonth_spec [groceries] 2024 1 = []
   \<and> getFullYear (- 18000000) (newDateYMD (- 18000000) 2024 1 1) = Some 2024
   \<and> getMonth (- 18000000) (newDateYMD (- 18000000) 2024 1 1) = Some 1
   \<and> filteredTransactions (- 18000000) [groceries] (newDateYMD (- 18000000) 2024 1 1) = []
   \<and> filteredTransactions (- 18000000) [groceries] (newDateYMD (- 18000000) 2024 0 1) = [groceries]"
  by code_simp

end
